theory Spec2Isabelle
  imports Main "HOL-Library.Word" "HOL-Library.Multiset"
begin

section \<open>Blooby: the encrypted container (features/encryption)\<close>

text \<open>
  A \<open>Buffer\<close> is a list of bytes. A JavaScript string is a \<open>string\<close>, which in HOL
  is a list of bytes already, so its UTF-8 encoding is the list itself.
  Exceptions are values of the type \<open>error\<close>; a function that can throw returns
  \<open>error + 'a\<close> with \<open>Inl\<close> for the exception.
\<close>

type_synonym byte = "8 word"
type_synonym buffer = "byte list"

datatype error =
    RangeError
  | TypeError
  | SyntaxError
  | CryptoError
  | DecryptionFailed "nat option"
  | NoReturn
  | DUPLICATE_ID
  | COLLECTION_NOT_FOUND
  | COLLECTION_ALREADY_EXISTS

text \<open>Sequencing of steps that can throw: the first exception ends the computation.\<close>

definition bind_err :: "error + 'a \<Rightarrow> ('a \<Rightarrow> error + 'b) \<Rightarrow> error + 'b" where
  "bind_err m f = (case m of Inl e \<Rightarrow> Inl e | Inr v \<Rightarrow> f v)"

record EncryptionMetadata =
  m_salt :: buffer
  m_algorithm :: string
  m_chunkCount :: "int option"
  m_chunkSize :: "int option"

record EncryptedChunk =
  c_index :: nat
  c_iv :: buffer
  c_data :: buffer
  c_authTag :: "buffer option"

record EncryptedData =
  e_metadata :: EncryptionMetadata
  e_chunks :: "EncryptedChunk list"

text \<open>
  What Node's \<open>crypto\<close>, \<open>JSON\<close> and base64 do is not code of this repository: the
  model takes it as a parameter \<open>H\<close>.
  \<^item> \<open>sha256\<close>, \<open>pbkdf2\<close>: the hash and the key derivation (100000 rounds, 32 bytes).
  \<^item> \<open>gcm_encrypt key iv plaintext\<close>: ciphertext and authentication tag of
    \<open>createCipheriv('aes-256-gcm', key, iv)\<close>.
  \<^item> \<open>gcm_decrypt key iv tag ciphertext\<close>: \<open>createDecipheriv\<close>, \<open>setAuthTag\<close> when a
    tag is given, \<open>update\<close> and \<open>final\<close>. \<open>SetupFailed\<close> is an exception of
    \<open>createDecipheriv\<close> or \<open>setAuthTag\<close> (outside the source's \<open>try\<close>),
    \<open>AuthFailed\<close> an exception of \<open>update\<close> or \<open>final\<close> (inside it).
  \<^item> \<open>json_stringify_meta\<close>: \<open>JSON.stringify\<close> of the metadata object with the salt
    in base64, as UTF-8 bytes; \<open>json_parse_meta\<close>: \<open>JSON.parse\<close> of those bytes and
    \<open>Buffer.from(salt, 'base64')\<close>, either of which can throw.
  The random bytes of an encryption (the salt, one IV per chunk) are arguments.
\<close>

datatype dec_result = SetupFailed | AuthFailed | Plain buffer

record host =
  sha256 :: "buffer \<Rightarrow> buffer"
  pbkdf2 :: "buffer \<Rightarrow> buffer \<Rightarrow> buffer"
  gcm_encrypt :: "buffer \<Rightarrow> buffer \<Rightarrow> buffer \<Rightarrow> buffer \<times> buffer"
  gcm_decrypt :: "buffer \<Rightarrow> buffer \<Rightarrow> buffer option \<Rightarrow> buffer \<Rightarrow> dec_result"
  json_stringify_meta :: "EncryptionMetadata \<Rightarrow> buffer"
  json_parse_meta :: "buffer \<Rightarrow> error + EncryptionMetadata"

definition ALGORITHM :: string where
  "ALGORITHM = ''aes-256-gcm''"

definition utf8 :: "string \<Rightarrow> buffer" where
  "utf8 s = map (\<lambda>c. of_nat (of_char c)) s"

definition digit_char :: "nat \<Rightarrow> char" where
  "digit_char d = char_of (48 + d)"

fun show_nat :: "nat \<Rightarrow> string" where
  "show_nat n = (if n < 10 then [digit_char n] else show_nat (n div 10) @ [digit_char (n mod 10)])"

declare show_nat.simps [simp del]

definition normalizeMasterKey :: "host \<Rightarrow> string \<Rightarrow> buffer" where
  "normalizeMasterKey H masterKey = sha256 H (utf8 masterKey)"

definition deriveKey :: "host \<Rightarrow> string \<Rightarrow> buffer \<Rightarrow> string \<Rightarrow> buffer" where
  "deriveKey H masterKey salt context =
     (let normalizedKey = normalizeMasterKey H masterKey
      in pbkdf2 H normalizedKey (salt @ utf8 context))"

text \<open>\<open>buffer.slice(start, end)\<close> never throws: it is cut to the buffer.\<close>

definition slice :: "buffer \<Rightarrow> nat \<Rightarrow> nat \<Rightarrow> buffer" where
  "slice buf start end = take (end - start) (drop start buf)"

subsection \<open>Encryption\<close>

definition encrypt_chunk_at ::
  "host \<Rightarrow> buffer \<Rightarrow> (nat \<Rightarrow> buffer) \<Rightarrow> buffer \<Rightarrow> string \<Rightarrow> nat \<Rightarrow> nat \<Rightarrow> EncryptedChunk" where
  "encrypt_chunk_at H salt ivs dat masterKey chunkSize i =
     (let start = i * chunkSize;
          end = min (start + chunkSize) (length dat);
          chunkData = slice dat start end;
          derivedKey = deriveKey H masterKey salt (''chunk_'' @ show_nat i);
          iv = ivs i;
          (encrypted, authTag) = gcm_encrypt H derivedKey iv chunkData
      in \<lparr>c_index = i, c_iv = iv, c_data = encrypted, c_authTag = Some authTag\<rparr>)"

text \<open>
  \<open>totalChunks = Math.ceil(data.length / chunkSize)\<close>. With \<open>chunkSize = 0\<close> the
  quotient is \<open>Infinity\<close> and the loop never ends, unless the data is empty too: then
  it is \<open>NaN\<close>, the loop body never runs, and the stored \<open>chunkCount\<close> is \<open>NaN\<close>,
  which every later use treats as an absent count (it is falsy, and \<open>null\<close> in JSON).
\<close>

definition encryptDataChunked ::
  "host \<Rightarrow> buffer \<Rightarrow> (nat \<Rightarrow> buffer) \<Rightarrow> buffer \<Rightarrow> string \<Rightarrow> nat \<Rightarrow> error + EncryptedData" where
  "encryptDataChunked H salt ivs dat masterKey chunkSize =
     (if chunkSize = 0 then
        (if dat = [] then
           Inr \<lparr>e_metadata = \<lparr>m_salt = salt, m_algorithm = ALGORITHM,
                               m_chunkCount = None, m_chunkSize = Some 0\<rparr>,
                e_chunks = []\<rparr>
         else Inl NoReturn)
      else
        (let totalChunks = (length dat + chunkSize - 1) div chunkSize;
             chunks = map (encrypt_chunk_at H salt ivs dat masterKey chunkSize) [0..<totalChunks]
         in Inr \<lparr>e_metadata = \<lparr>m_salt = salt, m_algorithm = ALGORITHM,
                                 m_chunkCount = Some (int totalChunks),
                                 m_chunkSize = Some (int chunkSize)\<rparr>,
                  e_chunks = chunks\<rparr>))"


subsection \<open>Decryption\<close>

fun decrypt_chunks ::
  "host \<Rightarrow> EncryptionMetadata \<Rightarrow> string \<Rightarrow> EncryptedChunk list \<Rightarrow> buffer list \<Rightarrow> error + buffer list" where
  "decrypt_chunks H md masterKey [] decryptedChunks = Inr decryptedChunks"
| "decrypt_chunks H md masterKey (chunk # rest) decryptedChunks =
     (let derivedKey = deriveKey H masterKey (m_salt md) (''chunk_'' @ show_nat (c_index chunk))
      in case gcm_decrypt H derivedKey (c_iv chunk) (c_authTag chunk) (c_data chunk) of
           SetupFailed \<Rightarrow> Inl CryptoError
         | AuthFailed \<Rightarrow> Inl (DecryptionFailed (Some (c_index chunk)))
         | Plain decrypted \<Rightarrow> decrypt_chunks H md masterKey rest (decryptedChunks @ [decrypted]))"

text \<open>
  \<open>chunks.sort((a, b) => a.index - b.index)\<close>: the sort of an array is stable, and
  so is \<open>sort_key\<close>.
\<close>

definition decryptDataChunked :: "host \<Rightarrow> EncryptedData \<Rightarrow> string \<Rightarrow> error + buffer" where
  "decryptDataChunked H encryptedData masterKey =
     (let chunks = sort_key c_index (e_chunks encryptedData)
      in bind_err (decrypt_chunks H (e_metadata encryptedData) masterKey chunks [])
           (\<lambda>decryptedChunks. Inr (concat decryptedChunks)))"

text \<open>\<open>chunks[0]\<close> of an empty array is \<open>undefined\<close>, and reading its \<open>iv\<close> throws.\<close>

definition decryptData :: "host \<Rightarrow> EncryptedData \<Rightarrow> string \<Rightarrow> error + buffer" where
  "decryptData H encryptedData masterKey =
     (case e_chunks encryptedData of
        [] \<Rightarrow> Inl TypeError
      | chunk # _ \<Rightarrow>
          (let derivedKey = deriveKey H masterKey (m_salt (e_metadata encryptedData)) []
           in case gcm_decrypt H derivedKey (c_iv chunk) (c_authTag chunk) (c_data chunk) of
                SetupFailed \<Rightarrow> Inl CryptoError
              | AuthFailed \<Rightarrow> Inl (DecryptionFailed None)
              | Plain decrypted \<Rightarrow> Inr decrypted))"

subsection \<open>The wire format\<close>

text \<open>
  \<open>writeUInt32BE\<close> and \<open>writeUInt16BE\<close> throw a range error for a value that does
  not fit; \<open>readUInt32BE\<close> and \<open>readUInt16BE\<close> throw one when the bytes to read are
  not all inside the buffer.
\<close>

definition writeUInt32BE :: "nat \<Rightarrow> error + buffer" where
  "writeUInt32BE n =
     (if n < 2 ^ 32
      then Inr [of_nat (n div 2 ^ 24), of_nat (n div 2 ^ 16), of_nat (n div 2 ^ 8), of_nat n]
      else Inl RangeError)"

definition writeUInt16BE :: "nat \<Rightarrow> error + buffer" where
  "writeUInt16BE n =
     (if n < 2 ^ 16 then Inr [of_nat (n div 2 ^ 8), of_nat n] else Inl RangeError)"

definition readUInt32BE :: "buffer \<Rightarrow> nat \<Rightarrow> error + nat" where
  "readUInt32BE buf off =
     (if off + 4 \<le> length buf
      then Inr (unat (buf ! off) * 2 ^ 24 + unat (buf ! (off + 1)) * 2 ^ 16
                + unat (buf ! (off + 2)) * 2 ^ 8 + unat (buf ! (off + 3)))
      else Inl RangeError)"

definition readUInt16BE :: "buffer \<Rightarrow> nat \<Rightarrow> error + nat" where
  "readUInt16BE buf off =
     (if off + 2 \<le> length buf
      then Inr (unat (buf ! off) * 2 ^ 8 + unat (buf ! (off + 1)))
      else Inl RangeError)"

definition serialize_chunk :: "EncryptedChunk \<Rightarrow> error + buffer" where
  "serialize_chunk chunk =
     bind_err (writeUInt32BE (c_index chunk)) (\<lambda>indexBuf.
     bind_err (writeUInt16BE (length (c_iv chunk))) (\<lambda>ivLengthBuf.
     bind_err (case c_authTag chunk of
                 Some authTag \<Rightarrow>
                   bind_err (writeUInt16BE (length authTag)) (\<lambda>authTagLengthBuf.
                     Inr (authTagLengthBuf @ authTag))
               | None \<Rightarrow> writeUInt16BE 0) (\<lambda>authTagPart.
     bind_err (writeUInt32BE (length (c_data chunk))) (\<lambda>dataLengthBuf.
       Inr (indexBuf @ ivLengthBuf @ c_iv chunk @ authTagPart @ dataLengthBuf @ c_data chunk)))))"

fun serialize_chunks :: "EncryptedChunk list \<Rightarrow> error + buffer list" where
  "serialize_chunks [] = Inr []"
| "serialize_chunks (chunk # rest) =
     bind_err (serialize_chunk chunk) (\<lambda>part.
     bind_err (serialize_chunks rest) (\<lambda>parts. Inr (part # parts)))"

definition serializeEncryptedData :: "host \<Rightarrow> EncryptedData \<Rightarrow> error + buffer" where
  "serializeEncryptedData H encryptedData =
     (let metadataBuffer = json_stringify_meta H (e_metadata encryptedData)
      in bind_err (writeUInt32BE (length metadataBuffer)) (\<lambda>metadataLength.
         bind_err (serialize_chunks (e_chunks encryptedData)) (\<lambda>parts.
           Inr (metadataLength @ metadataBuffer @ concat parts))))"

text \<open>
  The loop \<open>for (i = 0; i < chunkCount; i++)\<close> of the reader, with the offset it
  advances; \<open>n\<close> is the number of rounds left.
\<close>

fun read_chunks :: "buffer \<Rightarrow> nat \<Rightarrow> nat \<Rightarrow> EncryptedChunk list \<Rightarrow> error + EncryptedChunk list" where
  "read_chunks buf off 0 chunks = Inr chunks"
| "read_chunks buf off (Suc n) chunks =
     bind_err (readUInt32BE buf off) (\<lambda>idx.
     bind_err (readUInt16BE buf (off + 4)) (\<lambda>ivLength.
     let iv = slice buf (off + 6) (off + 6 + ivLength);
         off1 = off + 6 + ivLength
     in bind_err (readUInt16BE buf off1) (\<lambda>authTagLength.
     let authTag = (if authTagLength > 0
                    then Some (slice buf (off1 + 2) (off1 + 2 + authTagLength)) else None);
         off2 = (if authTagLength > 0 then off1 + 2 + authTagLength else off1 + 2)
     in bind_err (readUInt32BE buf off2) (\<lambda>dataLength.
     let dat = slice buf (off2 + 4) (off2 + 4 + dataLength)
     in read_chunks buf (off2 + 4 + dataLength) n
          (chunks @ [\<lparr>c_index = idx, c_iv = iv, c_data = dat, c_authTag = authTag\<rparr>])))))"

text \<open>\<open>metadata.chunkCount || 1\<close>: an absent count and the count 0 both give 1.\<close>

definition chunkCount_or_1 :: "EncryptionMetadata \<Rightarrow> int" where
  "chunkCount_or_1 md = (case m_chunkCount md of None \<Rightarrow> 1 | Some c \<Rightarrow> if c = 0 then 1 else c)"

definition deserializeEncryptedData :: "host \<Rightarrow> buffer \<Rightarrow> error + EncryptedData" where
  "deserializeEncryptedData H buf =
     bind_err (readUInt32BE buf 0) (\<lambda>metadataLength.
     bind_err (json_parse_meta H (slice buf 4 (4 + metadataLength))) (\<lambda>md.
     bind_err (read_chunks buf (4 + metadataLength) (nat (chunkCount_or_1 md)) []) (\<lambda>chunks.
       Inr \<lparr>e_metadata = md, e_chunks = chunks\<rparr>)))"

subsection \<open>encryptAuto and decryptAuto\<close>


definition decryptAuto :: "host \<Rightarrow> buffer \<Rightarrow> string \<Rightarrow> error + buffer" where
  "decryptAuto H encryptedBuffer masterKey =
     bind_err (deserializeEncryptedData H encryptedBuffer) (\<lambda>encryptedData.
       if (case m_chunkCount (e_metadata encryptedData) of None \<Rightarrow> False | Some c \<Rightarrow> c > 1)
       then decryptDataChunked H encryptedData masterKey
       else decryptData H encryptedData masterKey)"

subsection \<open>What the theorems assume of the host\<close>

text \<open>
  \<open>host_ok\<close>: keys have 32 bytes, and for such a key and a 16-byte IV the decipher
  given the tag of the cipher returns the plaintext; the tag has 16 bytes and the
  ciphertext the length of the plaintext, as AES-256-GCM has it.
  \<open>json_roundtrip\<close>: the metadata survives \<open>JSON.stringify\<close> and \<open>JSON.parse\<close>
  and its text fits the 32-bit length field.
  \<open>auto_metadata\<close> is the metadata of the container that \<open>encryptAuto\<close> builds.
\<close>

definition KEY_LENGTH :: nat where "KEY_LENGTH = 32"

definition IV_LENGTH :: nat where "IV_LENGTH = 16"

definition AUTH_TAG_LENGTH :: nat where "AUTH_TAG_LENGTH = 16"

definition host_ok :: "host \<Rightarrow> bool" where
  "host_ok H \<longleftrightarrow>
     (\<forall>pw s. length (pbkdf2 H pw s) = KEY_LENGTH) \<and>
     (\<forall>k iv p. length k = KEY_LENGTH \<longrightarrow> length iv = IV_LENGTH \<longrightarrow>
        gcm_decrypt H k iv (Some (snd (gcm_encrypt H k iv p))) (fst (gcm_encrypt H k iv p)) = Plain p
        \<and> length (snd (gcm_encrypt H k iv p)) = AUTH_TAG_LENGTH
        \<and> length (fst (gcm_encrypt H k iv p)) = length p)"

definition json_roundtrip :: "host \<Rightarrow> EncryptionMetadata \<Rightarrow> bool" where
  "json_roundtrip H md \<longleftrightarrow>
     json_parse_meta H (json_stringify_meta H md) = Inr md \<and> length (json_stringify_meta H md) < 2 ^ 32"

definition auto_metadata :: "buffer \<Rightarrow> buffer \<Rightarrow> nat \<Rightarrow> EncryptionMetadata" where
  "auto_metadata salt dat chunkSize =
     (if length dat \<le> chunkSize
      then \<lparr>m_salt = salt, m_algorithm = ALGORITHM, m_chunkCount = None, m_chunkSize = None\<rparr>
      else \<lparr>m_salt = salt, m_algorithm = ALGORITHM,
            m_chunkCount = Some (int ((length dat + chunkSize - 1) div chunkSize)),
            m_chunkSize = Some (int chunkSize)\<rparr>)"

subsection \<open>A small host, for evaluating the model on concrete inputs\<close>

definition toy_key_byte :: "buffer \<Rightarrow> byte" where
  "toy_key_byte k = (case k of [] \<Rightarrow> 0 | b # _ \<Rightarrow> b)"

definition toy_tag :: "buffer \<Rightarrow> buffer \<Rightarrow> buffer \<Rightarrow> buffer" where
  "toy_tag k iv p = replicate 16 (toy_key_byte k + toy_key_byte iv + sum_list p)"

definition toy_opt :: "int option \<Rightarrow> buffer" where
  "toy_opt v = (case v of None \<Rightarrow> [0, 0] | Some n \<Rightarrow> [1, of_int n])"

definition toy_unopt :: "byte \<Rightarrow> byte \<Rightarrow> int option" where
  "toy_unopt f v = (if f = 0 then None else Some (uint v))"

definition toy_stringify :: "EncryptionMetadata \<Rightarrow> buffer" where
  "toy_stringify md =
     of_nat (length (m_salt md)) # m_salt md @ toy_opt (m_chunkCount md) @ toy_opt (m_chunkSize md)
       @ utf8 (m_algorithm md)"

definition toy_parse :: "buffer \<Rightarrow> error + EncryptionMetadata" where
  "toy_parse buf =
     (case buf of
        [] \<Rightarrow> Inl SyntaxError
      | l # rest \<Rightarrow>
          (case drop (unat l) rest of
             f1 # v1 # f2 # v2 # alg \<Rightarrow>
               Inr \<lparr>m_salt = take (unat l) rest, m_algorithm = map (\<lambda>b. char_of (unat b)) alg,
                     m_chunkCount = toy_unopt f1 v1, m_chunkSize = toy_unopt f2 v2\<rparr>
           | _ \<Rightarrow> Inl SyntaxError))"

definition toy_host :: host where
  "toy_host =
     \<lparr>sha256 = (\<lambda>b. take 32 (b @ replicate 32 0)),
      pbkdf2 = (\<lambda>pw s. take 32 (pw @ s @ replicate 32 0)),
      gcm_encrypt = (\<lambda>k iv p. (map (\<lambda>b. b + toy_key_byte k) p, toy_tag k iv p)),
      gcm_decrypt = (\<lambda>k iv tag ct.
         case tag of
           None \<Rightarrow> AuthFailed
         | Some t \<Rightarrow>
             if length t \<noteq> 16 then SetupFailed
             else (let p = map (\<lambda>b. b - toy_key_byte k) ct
                   in if t = toy_tag k iv p then Plain p else AuthFailed)),
      json_stringify_meta = toy_stringify,
      json_parse_meta = toy_parse\<rparr>"

subsection \<open>Names used in the statements\<close>

definition plain_of :: "dec_result \<Rightarrow> buffer" where
  "plain_of r = (case r of Plain p \<Rightarrow> p | _ \<Rightarrow> [])"

abbreviation chunk_result :: "host \<Rightarrow> EncryptedData \<Rightarrow> string \<Rightarrow> string \<Rightarrow> EncryptedChunk \<Rightarrow> dec_result" where
  "chunk_result H E masterKey context c \<equiv>
     gcm_decrypt H (deriveKey H masterKey (m_salt (e_metadata E)) context) (c_iv c) (c_authTag c) (c_data c)"

definition toy_ivs :: "nat \<Rightarrow> buffer" where
  "toy_ivs i = replicate 16 (of_nat i)"

definition toy_salt :: buffer where
  "toy_salt = replicate 32 7"

definition toy_container :: EncryptedData where
  "toy_container =
     \<lparr>e_metadata = auto_metadata toy_salt [1, 2, 3, 4, 5] 2,
      e_chunks = map (encrypt_chunk_at toy_host toy_salt toy_ivs [1, 2, 3, 4, 5] ''correct horse'' 2) [0..<3]\<rparr>"

definition toy_tampered :: EncryptedData where
  "toy_tampered =
     toy_container\<lparr>e_chunks := (e_chunks toy_container)[1 := (e_chunks toy_container ! 1)\<lparr>c_data := [0, 0]\<rparr>]\<rparr>"

section \<open>Blooby: the document store (index.ts, utils)\<close>

subsection \<open>JavaScript values\<close>

text \<open>
  Document data, query conditions and update payloads are JavaScript values. Numbers
  are modelled by the integers (the store's documents are JSON; fractions, \<open>NaN\<close> and
  the rounding of doubles beyond \<open>2 ^ 53\<close> are outside the model). An object is the list
  of its own properties in the order \<open>Object.entries\<close> lists them. Values inside a
  query or payload are never the same object as a value inside a document, and the data
  objects of different documents are not shared.

  What the language does beyond these values is a parameter \<open>J\<close> of the model:
  \<^item> \<open>js_get_other\<close>: a property read that finds no own property (members of
    \<open>Object.prototype\<close>, properties of numbers and booleans, methods of arrays and
    strings);
  \<^item> \<open>js_less_other\<close>: the relational comparison \<open>a < b\<close> where an operand must
    first be converted (a string against a number, an array, an object); \<open>None\<close> is
    the comparison with \<open>NaN\<close>;
  \<^item> \<open>js_plus_other\<close>: \<open>a + b\<close> on operands that are not two numbers or two strings;
  \<^item> \<open>js_regex_test\<close>: \<open>new RegExp(pattern).test(String(value))\<close>, taken on patterns
    that compile.
\<close>

datatype jsval =
    JUndefined
  | JNull
  | JBool bool
  | JNum int
  | JStr string
  | JArr "jsval list"
  | JObj "(string \<times> jsval) list"

type_synonym obj = "(string \<times> jsval) list"

record jshost =
  js_get_other :: "jsval \<Rightarrow> string \<Rightarrow> jsval"
  js_less_other :: "jsval \<Rightarrow> jsval \<Rightarrow> bool option"
  js_plus_other :: "jsval \<Rightarrow> jsval \<Rightarrow> jsval"
  js_regex_test :: "jsval \<Rightarrow> jsval \<Rightarrow> bool"

definition truthy :: "jsval \<Rightarrow> bool" where
  "truthy v = (case v of
       JUndefined \<Rightarrow> False | JNull \<Rightarrow> False | JBool b \<Rightarrow> b | JNum n \<Rightarrow> n \<noteq> 0
     | JStr s \<Rightarrow> s \<noteq> [] | JArr _ \<Rightarrow> True | JObj _ \<Rightarrow> True)"

text \<open>\<open>a === b\<close>: primitives by value, objects and arrays by identity.\<close>

fun strict_eq :: "jsval \<Rightarrow> jsval \<Rightarrow> bool" where
  "strict_eq JUndefined JUndefined = True"
| "strict_eq JNull JNull = True"
| "strict_eq (JBool a) (JBool b) = (a = b)"
| "strict_eq (JNum a) (JNum b) = (a = b)"
| "strict_eq (JStr a) (JStr b) = (a = b)"
| "strict_eq _ _ = False"

fun str_less :: "string \<Rightarrow> string \<Rightarrow> bool" where
  "str_less [] [] = False"
| "str_less [] (y # ys) = True"
| "str_less (x # xs) [] = False"
| "str_less (x # xs) (y # ys) =
     (if (of_char x :: nat) < of_char y then True
      else if (of_char y :: nat) < of_char x then False
      else str_less xs ys)"

definition to_num :: "jsval \<Rightarrow> int option" where
  "to_num v = (case v of JNull \<Rightarrow> Some 0 | JBool b \<Rightarrow> Some (if b then 1 else 0)
                | JNum n \<Rightarrow> Some n | _ \<Rightarrow> None)"

text \<open>
  The comparison behind \<open><\<close>, \<open>>\<close>, \<open><=\<close> and \<open>>=\<close>: \<open>Some True\<close>, \<open>Some False\<close>, or
  \<open>None\<close> when an operand is \<open>undefined\<close> (it converts to \<open>NaN\<close>).
\<close>

definition js_less :: "jshost \<Rightarrow> jsval \<Rightarrow> jsval \<Rightarrow> bool option" where
  "js_less J a b =
     (case (a, b) of
        (JStr s, JStr t) \<Rightarrow> Some (str_less s t)
      | _ \<Rightarrow>
          if a = JUndefined \<or> b = JUndefined then None
          else (case (to_num a, to_num b) of
                  (Some x, Some y) \<Rightarrow> Some (x < y)
                | _ \<Rightarrow> js_less_other J a b))"

definition js_lt :: "jshost \<Rightarrow> jsval \<Rightarrow> jsval \<Rightarrow> bool" where
  "js_lt J a b = (js_less J a b = Some True)"

definition js_gt :: "jshost \<Rightarrow> jsval \<Rightarrow> jsval \<Rightarrow> bool" where
  "js_gt J a b = (js_less J b a = Some True)"

definition js_le :: "jshost \<Rightarrow> jsval \<Rightarrow> jsval \<Rightarrow> bool" where
  "js_le J a b = (js_less J b a = Some False)"

definition js_ge :: "jshost \<Rightarrow> jsval \<Rightarrow> jsval \<Rightarrow> bool" where
  "js_ge J a b = (js_less J a b = Some False)"

definition js_plus :: "jshost \<Rightarrow> jsval \<Rightarrow> jsval \<Rightarrow> jsval" where
  "js_plus J a b =
     (case (a, b) of
        (JNum x, JNum y) \<Rightarrow> JNum (x + y)
      | (JStr s, JStr t) \<Rightarrow> JStr (s @ t)
      | _ \<Rightarrow> js_plus_other J a b)"

subsection \<open>Objects: property order, reads, writes\<close>

text \<open>
  A key that is a canonical array index (\<open>"0"\<close>, \<open>"17"\<close>, below \<open>2 ^ 32 - 1\<close>) is listed
  before every other key, in ascending order; the other keys follow in insertion order.
\<close>

definition array_index :: "string \<Rightarrow> nat option" where
  "array_index k =
     (if k \<noteq> [] \<and> list_all (\<lambda>c. (48::nat) \<le> of_char c \<and> of_char c \<le> (57::nat)) k \<and> (k = ''0'' \<or> hd k \<noteq> CHR ''0'')
      then (let n = foldl (\<lambda>a c. 10 * a + (of_char c - 48)) 0 k
            in if n < 2 ^ 32 - 1 then Some n else None)
      else None)"

fun insert_index :: "nat \<Rightarrow> string \<times> 'a \<Rightarrow> (string \<times> 'a) list \<Rightarrow> (string \<times> 'a) list" where
  "insert_index i kv [] = [kv]"
| "insert_index i kv ((k', v') # rest) =
     (case array_index k' of
        Some j \<Rightarrow> if j < i then (k', v') # insert_index i kv rest else kv # (k', v') # rest
      | None \<Rightarrow> kv # (k', v') # rest)"

text \<open>
  \<open>obj_define\<close> creates or overwrites an own property (object literals and spread).
  \<open>obj_set\<close> is the assignment \<open>obj[k] = v\<close>: the same, except that assigning to
  \<open>__proto__\<close> creates no own property.
\<close>

definition obj_define :: "string \<Rightarrow> 'a \<Rightarrow> (string \<times> 'a) list \<Rightarrow> (string \<times> 'a) list" where
  "obj_define k v m =
     (if k \<in> fst ` set m then map (\<lambda>(k', v'). if k' = k then (k', v) else (k', v')) m
      else (case array_index k of Some i \<Rightarrow> insert_index i (k, v) m | None \<Rightarrow> m @ [(k, v)]))"

definition obj_set :: "string \<Rightarrow> 'a \<Rightarrow> (string \<times> 'a) list \<Rightarrow> (string \<times> 'a) list" where
  "obj_set k v m = (if k = ''__proto__'' then m else obj_define k v m)"

definition obj_delete :: "string \<Rightarrow> (string \<times> 'a) list \<Rightarrow> (string \<times> 'a) list" where
  "obj_delete k m = filter (\<lambda>(k', v'). k' \<noteq> k) m"

text \<open>
  The databases, collections and documents maps are plain objects (\<open>{}\<close>, or what
  \<open>JSON.parse\<close> returns), so a read \<open>m[k]\<close> that finds no own property finds the
  members of \<open>Object.prototype\<close>.
\<close>

definition object_prototype_names :: "string list" where
  "object_prototype_names =
     [''constructor'', ''__defineGetter__'', ''__defineSetter__'', ''hasOwnProperty'',
      ''__lookupGetter__'', ''__lookupSetter__'', ''isPrototypeOf'', ''propertyIsEnumerable'',
      ''toString'', ''valueOf'', ''__proto__'', ''toLocaleString'']"

datatype 'a lookup = Own 'a | Inherited | Absent

definition obj_lookup :: "(string \<times> 'a) list \<Rightarrow> string \<Rightarrow> 'a lookup" where
  "obj_lookup m k =
     (case map_of m k of
        Some v \<Rightarrow> Own v
      | None \<Rightarrow> if k \<in> set object_prototype_names then Inherited else Absent)"

definition indexed :: "jsval list \<Rightarrow> obj" where
  "indexed xs = zip (map show_nat [0..<length xs]) xs"

text \<open>\<open>Object.entries(v)\<close> for a value that is not \<open>null\<close> or \<open>undefined\<close>.\<close>

definition entries_of :: "jsval \<Rightarrow> obj" where
  "entries_of v = (case v of JObj kvs \<Rightarrow> kvs | JArr xs \<Rightarrow> indexed xs
                   | JStr s \<Rightarrow> indexed (map (\<lambda>c. JStr [c]) s) | _ \<Rightarrow> [])"

text \<open>The read \<open>v[key]\<close> of a value that is not \<open>null\<close> or \<open>undefined\<close>.\<close>

definition js_get :: "jshost \<Rightarrow> jsval \<Rightarrow> string \<Rightarrow> jsval" where
  "js_get J v key =
     (case v of
        JObj kvs \<Rightarrow>
          (case map_of kvs key of
             Some x \<Rightarrow> x
           | None \<Rightarrow> if key \<in> set object_prototype_names then js_get_other J v key else JUndefined)
      | JArr xs \<Rightarrow>
          (case array_index key of
             Some i \<Rightarrow> if i < length xs then xs ! i else JUndefined
           | None \<Rightarrow> if key = ''length'' then JNum (int (length xs)) else js_get_other J v key)
      | JStr s \<Rightarrow>
          (case array_index key of
             Some i \<Rightarrow> if i < length s then JStr [s ! i] else JUndefined
           | None \<Rightarrow> if key = ''length'' then JNum (int (length s)) else js_get_other J v key)
      | _ \<Rightarrow> js_get_other J v key)"

text \<open>\<open>key in obj\<close> for a plain object.\<close>

definition js_in :: "string \<Rightarrow> obj \<Rightarrow> bool" where
  "js_in key m = (key \<in> fst ` set m \<or> key \<in> set object_prototype_names)"

text \<open>\<open>Object.assign(target, source)\<close>: each own property of the source is assigned.\<close>

definition object_assign :: "obj \<Rightarrow> jsval \<Rightarrow> obj" where
  "object_assign target source = foldl (\<lambda>t (k, v). obj_set k v t) target (entries_of source)"

subsection \<open>utils: isObject, getNestedValue, pick\<close>

definition isObject :: "jsval \<Rightarrow> bool" where
  "isObject v = (case v of JObj _ \<Rightarrow> True | _ \<Rightarrow> False)"

text \<open>\<open>path.split('.')\<close>.\<close>

fun split_dot :: "string \<Rightarrow> string list" where
  "split_dot [] = [[]]"
| "split_dot (c # cs) =
     (if c = CHR ''.'' then [] # split_dot cs
      else (case split_dot cs of w # ws \<Rightarrow> (c # w) # ws | [] \<Rightarrow> [[c]]))"

fun get_path :: "jshost \<Rightarrow> jsval \<Rightarrow> string list \<Rightarrow> jsval" where
  "get_path J result [] = result"
| "get_path J result (key # keys) =
     (if result = JNull \<or> result = JUndefined then JUndefined
      else get_path J (js_get J result key) keys)"

definition getNestedValue :: "jshost \<Rightarrow> jsval \<Rightarrow> string \<Rightarrow> jsval" where
  "getNestedValue J ob path = get_path J ob (split_dot path)"

definition pick :: "jshost \<Rightarrow> obj \<Rightarrow> string list \<Rightarrow> obj" where
  "pick J ob keys =
     foldl (\<lambda>result key. if js_in key ob then obj_set key (js_get J (JObj ob) key) result else result)
       [] keys"

subsection \<open>The data model\<close>

text \<open>
  Dates are numbers of a clock; each operation reads the clock once (\<open>now\<close>). The
  schema, the indexes and the counter \<open>autoIncrementId\<close> of a collection and the
  filename and metadata of the database are read by none of the operations below and
  are left out. \<open>save()\<close> writes the file and leaves the database in memory as it is: the
  model is the database in memory.
\<close>

record DocumentMetadata =
  dm_createdAt :: nat
  dm_updatedAt :: nat
  dm_version :: int
  dm_deleted :: bool

record Document =
  d_id :: string
  d_data :: obj
  d_meta :: DocumentMetadata

record CollectionMetadata =
  cm_createdAt :: nat
  cm_modifiedAt :: nat
  cm_documentCount :: int

record Collection =
  col_name :: string
  col_documents :: "(string \<times> Document) list"
  col_meta :: CollectionMetadata

record database =
  db_collections :: "(string \<times> Collection) list"

datatype projection = ProjList "string list" | ProjMap "(string \<times> bool) list"

record QueryOptions =
  qo_sort :: "(string \<times> int) list option"
  qo_limit :: "int option"
  qo_skip :: "int option"
  qo_projection :: "projection option"
  qo_includeDeleted :: bool

record FindQuery =
  fq_where :: "jsval option"
  fq_options :: "QueryOptions option"

record UpdateOptions =
  uo_multi :: bool

record DeleteOptions =
  do_hard :: bool
  do_multi :: bool

record InsertResult =
  ir_success :: bool
  ir_data :: "obj list"
  ir_insertedIds :: "string list"
  ir_insertedCount :: nat

record UpdateResult =
  ur_success :: bool
  ur_error :: "string option"
  ur_matchedCount :: nat
  ur_modifiedCount :: nat

record DeleteResult =
  dr_success :: bool
  dr_error :: "string option"
  dr_deletedCount :: nat

record FindResult =
  fr_success :: bool
  fr_data :: "obj list"
  fr_totalCount :: nat
  fr_hasMore :: bool

subsection \<open>matchesQuery\<close>

text \<open>One \<open>case\<close> of the \<open>switch\<close>: \<open>False\<close> where the source returns false.\<close>

definition op_holds :: "jshost \<Rightarrow> jsval \<Rightarrow> string \<Rightarrow> jsval \<Rightarrow> bool" where
  "op_holds J v op condValue =
     (if op = ''$eq'' then strict_eq v condValue
      else if op = ''$ne'' then \<not> strict_eq v condValue
      else if op = ''$gt'' then \<not> js_le J v condValue
      else if op = ''$gte'' then \<not> js_lt J v condValue
      else if op = ''$lt'' then \<not> js_ge J v condValue
      else if op = ''$lte'' then \<not> js_gt J v condValue
      else if op = ''$in'' then (case condValue of JArr xs \<Rightarrow> list_ex (\<lambda>x. strict_eq x v) xs | _ \<Rightarrow> False)
      else if op = ''$nin'' then (case condValue of JArr xs \<Rightarrow> \<not> list_ex (\<lambda>x. strict_eq x v) xs | _ \<Rightarrow> False)
      else if op = ''$regex'' then js_regex_test J condValue v
      else if op = ''$exists'' then
        \<not> (truthy condValue \<and> v = JUndefined) \<and> \<not> (\<not> truthy condValue \<and> v \<noteq> JUndefined)
      else True)"

text \<open>A field key: \<open>False\<close> where the source returns false, \<open>True\<close> where the loop goes on.\<close>

definition field_cond :: "jshost \<Rightarrow> obj \<Rightarrow> string \<Rightarrow> jsval \<Rightarrow> bool" where
  "field_cond J dat key condition =
     (let v = getNestedValue J (JObj dat) key
      in if isObject condition
         then list_all (\<lambda>(op, condValue). op_holds J v op condValue) (entries_of condition)
         else strict_eq v condition)"

text \<open>
  \<open>matchesQuery\<close> with its loop over \<open>Object.entries(where)\<close> (\<open>match_entries\<close>) and the
  calls \<open>condition.every(...)\<close> and \<open>condition.some(...)\<close>. A logical key returns at
  once. \<open>Object.entries\<close> of \<open>null\<close> or \<open>undefined\<close> throws, and so does
  \<open>condition.every\<close> when the condition is not an array. The keys of an array or a
  string are indices, never a logical key.
\<close>

fun matchesQuery :: "jshost \<Rightarrow> obj \<Rightarrow> jsval \<Rightarrow> error + bool"
  and match_entries :: "jshost \<Rightarrow> obj \<Rightarrow> (string \<times> jsval) list \<Rightarrow> error + bool"
  and every_query :: "jshost \<Rightarrow> obj \<Rightarrow> jsval list \<Rightarrow> error + bool"
  and some_query :: "jshost \<Rightarrow> obj \<Rightarrow> jsval list \<Rightarrow> error + bool" where
  "matchesQuery J dat JUndefined = Inl TypeError"
| "matchesQuery J dat JNull = Inl TypeError"
| "matchesQuery J dat (JObj kvs) = match_entries J dat kvs"
| "matchesQuery J dat (JArr xs) =
     Inr (list_all (\<lambda>(key, condition). field_cond J dat key condition) (indexed xs))"
| "matchesQuery J dat (JStr s) =
     Inr (list_all (\<lambda>(key, condition). field_cond J dat key condition)
            (indexed (map (\<lambda>c. JStr [c]) s)))"
| "matchesQuery J dat (JBool b) = Inr True"
| "matchesQuery J dat (JNum n) = Inr True"
| "match_entries J dat [] = Inr True"
| "match_entries J dat ((key, JArr qs) # rest) =
     (if key = ''$and'' then every_query J dat qs
      else if key = ''$or'' then some_query J dat qs
      else if key = ''$not'' then bind_err (every_query J dat qs) (\<lambda>b. Inr (\<not> b))
      else if field_cond J dat key (JArr qs) then match_entries J dat rest
      else Inr False)"
| "match_entries J dat ((key, condition) # rest) =
     (if key = ''$and'' \<or> key = ''$or'' \<or> key = ''$not'' then Inl TypeError
      else if field_cond J dat key condition then match_entries J dat rest
      else Inr False)"
| "every_query J dat [] = Inr True"
| "every_query J dat (q # qs) =
     bind_err (matchesQuery J dat q) (\<lambda>b. if b then every_query J dat qs else Inr False)"
| "some_query J dat [] = Inr False"
| "some_query J dat (q # qs) =
     bind_err (matchesQuery J dat q) (\<lambda>b. if b then Inr True else some_query J dat qs)"

subsection \<open>sortDocuments, applyProjection, applyUpdate\<close>

fun compare_docs :: "jshost \<Rightarrow> (string \<times> int) list \<Rightarrow> Document \<Rightarrow> Document \<Rightarrow> int" where
  "compare_docs J [] a b = 0"
| "compare_docs J ((key, order) # rest) a b =
     (let aVal = getNestedValue J (JObj (d_data a)) key;
          bVal = getNestedValue J (JObj (d_data b)) key
      in if js_lt J aVal bVal then (if order = 1 then - 1 else 1)
         else if js_gt J aVal bVal then (if order = 1 then 1 else - 1)
         else compare_docs J rest a b)"

text \<open>
  \<open>Array.prototype.sort\<close> is stable; it is modelled by the stable insertion sort. (For a
  comparator that is not a consistent ordering the language leaves the result to the
  implementation.)
\<close>

fun insort_by :: "('a \<Rightarrow> 'a \<Rightarrow> int) \<Rightarrow> 'a \<Rightarrow> 'a list \<Rightarrow> 'a list" where
  "insort_by cmp x [] = [x]"
| "insort_by cmp x (y # ys) = (if cmp x y \<le> 0 then x # y # ys else y # insort_by cmp x ys)"

definition sort_by :: "('a \<Rightarrow> 'a \<Rightarrow> int) \<Rightarrow> 'a list \<Rightarrow> 'a list" where
  "sort_by cmp xs = foldr (insort_by cmp) xs []"

definition sortDocuments :: "jshost \<Rightarrow> Document list \<Rightarrow> (string \<times> int) list \<Rightarrow> Document list" where
  "sortDocuments J documents srt = sort_by (compare_docs J srt) documents"

definition applyProjection :: "jshost \<Rightarrow> obj list \<Rightarrow> projection \<Rightarrow> obj list" where
  "applyProjection J results proj =
     (case proj of
        ProjList keys \<Rightarrow> map (\<lambda>doc. pick J doc keys) results
      | ProjMap m \<Rightarrow>
          (let includeKeys = map fst (filter snd m)
           in map (\<lambda>doc. pick J doc includeKeys) results))"

text \<open>The \<open>$inc\<close> loop: \<open>data[key] = (data[key] || 0) + value\<close>.\<close>

definition inc_field :: "jshost \<Rightarrow> obj \<Rightarrow> string \<times> jsval \<Rightarrow> obj" where
  "inc_field J dat kv =
     (let old = js_get J (JObj dat) (fst kv)
      in obj_set (fst kv) (js_plus J (if truthy old then old else JNum 0) (snd kv)) dat)"

text \<open>\<open>modifiers.$set\<close> and the like: the own property, or \<open>undefined\<close>.\<close>

definition modifier :: "obj \<Rightarrow> string \<Rightarrow> jsval" where
  "modifier dat k = (case map_of dat k of Some v \<Rightarrow> v | None \<Rightarrow> JUndefined)"

definition applyUpdate :: "jshost \<Rightarrow> obj \<Rightarrow> obj \<Rightarrow> obj" where
  "applyUpdate J documentData dat =
     (if js_in ''$set'' dat then
        (let d1 = (if truthy (modifier dat ''$set'')
                   then object_assign documentData (modifier dat ''$set'') else documentData);
             d2 = (if truthy (modifier dat ''$unset'')
                   then foldl (\<lambda>d key. obj_delete key d) d1 (map fst (entries_of (modifier dat ''$unset'')))
                   else d1);
             d3 = (if truthy (modifier dat ''$inc'')
                   then foldl (inc_field J) d2 (entries_of (modifier dat ''$inc''))
                   else d2)
         in d3)
      else object_assign documentData (JObj dat))"

subsection \<open>The operations of a database instance\<close>

text \<open>
  \<open>getCollection\<close> as its callers use it: a name that is no own property but a member
  of \<open>Object.prototype\<close> passes the check \<open>!collection\<close>, and the caller's first read of
  \<open>collection.documents\<close> throws.
\<close>

definition getCollection :: "database \<Rightarrow> string \<Rightarrow> error + Collection" where
  "getCollection db name =
     (case obj_lookup (db_collections db) name of
        Own collection \<Rightarrow> Inr collection
      | Inherited \<Rightarrow> Inl TypeError
      | Absent \<Rightarrow> Inl COLLECTION_NOT_FOUND)"

text \<open>The collection object is changed in place: its slot in the map gets the new value.\<close>

definition put_collection :: "database \<Rightarrow> string \<Rightarrow> Collection \<Rightarrow> database" where
  "put_collection db name collection =
     db\<lparr>db_collections := map (\<lambda>(n, c). if n = name then (n, collection) else (n, c)) (db_collections db)\<rparr>"

definition upd_doc :: "string \<Rightarrow> (Document \<Rightarrow> Document) \<Rightarrow> (string \<times> Document) list \<Rightarrow> (string \<times> Document) list" where
  "upd_doc key f docs = map (\<lambda>(k, d). if k = key then (k, f d) else (k, d)) docs"


text \<open>
  \<open>insert\<close> of the source (the name is taken in HOL, as is \<open>find\<close>).
  \<open>generated\<close> is what \<open>Utils.generateShortId()\<close> returns in this call. An empty
  \<open>customId\<close> is falsy, so the generated id is used.
\<close>

definition new_document :: "nat \<Rightarrow> string \<Rightarrow> obj \<Rightarrow> Document" where
  "new_document now ident dat =
     \<lparr>d_id = ident, d_data = dat,
      d_meta = \<lparr>dm_createdAt = now, dm_updatedAt = now, dm_version = 1, dm_deleted = False\<rparr>\<rparr>"


text \<open>\<open>generated i\<close> is the id that \<open>Utils.generateShortId()\<close> returns in round \<open>i\<close>.\<close>

definition insertMany :: "database \<Rightarrow> nat \<Rightarrow> (nat \<Rightarrow> string) \<Rightarrow> string \<Rightarrow> obj list \<Rightarrow> error + (InsertResult \<times> database)" where
  "insertMany db now generated collectionName dataArray =
     bind_err (getCollection db collectionName) (\<lambda>collection.
       let insertedIds = map generated [0..<length dataArray];
           documents = foldl (\<lambda>docs (ident, dat). obj_set ident (new_document now ident dat) docs)
                         (col_documents collection) (zip insertedIds dataArray);
           collection' = collection
             \<lparr>col_documents := documents,
              col_meta := (col_meta collection)
                \<lparr>cm_documentCount := cm_documentCount (col_meta collection) + int (length dataArray),
                 cm_modifiedAt := now\<rparr>\<rparr>
       in Inr (\<lparr>ir_success = True, ir_data = dataArray, ir_insertedIds = insertedIds,
                ir_insertedCount = length dataArray\<rparr>,
               put_collection db collectionName collection'))"

text \<open>\<open>array.filter(f)\<close> for an \<open>f\<close> that can throw.\<close>

fun filter_err :: "('a \<Rightarrow> error + bool) \<Rightarrow> 'a list \<Rightarrow> error + 'a list" where
  "filter_err f [] = Inr []"
| "filter_err f (x # xs) =
     bind_err (f x) (\<lambda>b. bind_err (filter_err f xs) (\<lambda>ys. Inr (if b then x # ys else ys)))"

text \<open>\<open>slice(skip)\<close> for a positive \<open>skip\<close>, and \<open>slice(0, limit)\<close>, which counts a negative \<open>limit\<close> from the end.\<close>

definition slice_to :: "'a list \<Rightarrow> int \<Rightarrow> 'a list" where
  "slice_to xs limit = (if limit < 0 then take (nat (int (length xs) + limit)) xs else take (nat limit) xs)"

text \<open>\<open>{_id: doc._id, ...doc.data}\<close>.\<close>

definition to_result :: "Document \<Rightarrow> obj" where
  "to_result doc = foldl (\<lambda>r (k, v). obj_define k v r) [(''_id'', JStr (d_id doc))] (d_data doc)"

text \<open>
  The optional parts of a find query: \<open>query?.where\<close>, \<open>query?.options?.sort\<close>,
  \<open>query?.options?.limit\<close>, \<open>query?.options?.skip || 0\<close>, and so on.
\<close>

definition query_where :: "FindQuery option \<Rightarrow> jsval option" where
  "query_where query = (case query of None \<Rightarrow> None | Some q \<Rightarrow> fq_where q)"

definition query_includeDeleted :: "FindQuery option \<Rightarrow> bool" where
  "query_includeDeleted query =
     (case query of None \<Rightarrow> False
      | Some q \<Rightarrow> (case fq_options q of None \<Rightarrow> False | Some opt \<Rightarrow> qo_includeDeleted opt))"

definition query_skip :: "FindQuery option \<Rightarrow> int" where
  "query_skip query =
     (case query of None \<Rightarrow> 0
      | Some q \<Rightarrow> (case fq_options q of None \<Rightarrow> 0
                   | Some opt \<Rightarrow> (case qo_skip opt of None \<Rightarrow> 0 | Some k \<Rightarrow> k)))"

definition query_projection :: "FindQuery option \<Rightarrow> projection option" where
  "query_projection query =
     (case query of None \<Rightarrow> None
      | Some q \<Rightarrow> (case fq_options q of None \<Rightarrow> None | Some opt \<Rightarrow> qo_projection opt))"

definition query_sort :: "FindQuery option \<Rightarrow> (string \<times> int) list option" where
  "query_sort query =
     (case query of None \<Rightarrow> None
      | Some q \<Rightarrow> (case fq_options q of None \<Rightarrow> None | Some opt \<Rightarrow> qo_sort opt))"

definition query_limit :: "FindQuery option \<Rightarrow> int option" where
  "query_limit query =
     (case query of None \<Rightarrow> None
      | Some q \<Rightarrow> (case fq_options q of None \<Rightarrow> None | Some opt \<Rightarrow> qo_limit opt))"

definition find_documents :: "jshost \<Rightarrow> database \<Rightarrow> string \<Rightarrow> FindQuery option \<Rightarrow> error + FindResult" where
  "find_documents J db collectionName query =
     bind_err (getCollection db collectionName) (\<lambda>collection.
       let all_documents = map snd (col_documents collection)
       in bind_err (case query_where query of
                      None \<Rightarrow> Inr all_documents
                    | Some w \<Rightarrow> if truthy w
                                then filter_err (\<lambda>doc. matchesQuery J (d_data doc) w) all_documents
                                else Inr all_documents) (\<lambda>matching.
          let documents = (if \<not> query_includeDeleted query
                           then filter (\<lambda>doc. \<not> dm_deleted (d_meta doc)) matching else matching);
              totalCount = length documents;
              sorted = (case query_sort query of
                          None \<Rightarrow> documents | Some srt \<Rightarrow> sortDocuments J documents srt);
              skip = query_skip query;
              limit = query_limit query;
              skipped = (if skip > 0 then drop (nat skip) sorted else sorted);
              page = (case limit of
                        None \<Rightarrow> skipped
                      | Some l \<Rightarrow> if l \<noteq> 0 then slice_to skipped l else skipped);
              results = map to_result page;
              projected = (case query_projection query of
                             None \<Rightarrow> results | Some proj \<Rightarrow> applyProjection J results proj)
          in Inr \<lparr>fr_success = True, fr_data = projected, fr_totalCount = totalCount,
                  fr_hasMore = (skip + int (length page) < int totalCount)\<rparr>))"

text \<open>
  The loop of \<open>update\<close> over the matching documents. A document of the snapshot is the
  object in its slot of the map, so the change is made in that slot. When the loop has
  changed no document, nothing in the database has changed.
\<close>

definition touch :: "jshost \<Rightarrow> nat \<Rightarrow> obj \<Rightarrow> Document \<Rightarrow> Document" where
  "touch J now dat document =
     document\<lparr>d_data := applyUpdate J (d_data document) dat,
              d_meta := (d_meta document)\<lparr>dm_updatedAt := now,
                                          dm_version := dm_version (d_meta document) + 1\<rparr>\<rparr>"

fun update_loop ::
  "jshost \<Rightarrow> nat \<Rightarrow> obj \<Rightarrow> bool \<Rightarrow> (string \<times> Document) list \<Rightarrow> (string \<times> Document) list \<Rightarrow> nat
   \<Rightarrow> (string \<times> Document) list \<times> nat" where
  "update_loop J now dat multi [] docs modifiedCount = (docs, modifiedCount)"
| "update_loop J now dat multi ((key, document) # rest) docs modifiedCount =
     (let docs' = upd_doc key (touch J now dat) docs
      in if \<not> multi then (docs', modifiedCount + 1)
         else update_loop J now dat multi rest docs' (modifiedCount + 1))"

text \<open>\<open>options?.multi\<close> and \<open>options?.hard\<close>: absent options are falsy.\<close>

definition multi_update :: "UpdateOptions option \<Rightarrow> bool" where
  "multi_update options = (case options of None \<Rightarrow> False | Some opt \<Rightarrow> uo_multi opt)"

definition multi_delete :: "DeleteOptions option \<Rightarrow> bool" where
  "multi_delete options = (case options of None \<Rightarrow> False | Some opt \<Rightarrow> do_multi opt)"

definition hard_delete :: "DeleteOptions option \<Rightarrow> bool" where
  "hard_delete options = (case options of None \<Rightarrow> False | Some opt \<Rightarrow> do_hard opt)"

definition live_match :: "jshost \<Rightarrow> jsval \<Rightarrow> string \<times> Document \<Rightarrow> error + bool" where
  "live_match J whr kd =
     (if dm_deleted (d_meta (snd kd)) then Inr False else matchesQuery J (d_data (snd kd)) whr)"

definition update ::
  "jshost \<Rightarrow> database \<Rightarrow> nat \<Rightarrow> string \<Rightarrow> jsval \<Rightarrow> obj \<Rightarrow> UpdateOptions option
   \<Rightarrow> error + (UpdateResult \<times> database)" where
  "update J db now collectionName whr dat options =
     bind_err (getCollection db collectionName) (\<lambda>collection.
     bind_err (filter_err (live_match J whr) (col_documents collection)) (\<lambda>documents.
       let (docs', modifiedCount) =
             update_loop J now dat (multi_update options) documents (col_documents collection) 0;
           collection' = collection\<lparr>col_documents := docs',
                                     col_meta := (col_meta collection)\<lparr>cm_modifiedAt := now\<rparr>\<rparr>
       in Inr (\<lparr>ur_success = True, ur_error = None, ur_matchedCount = length documents,
                ur_modifiedCount = modifiedCount\<rparr>,
               if modifiedCount > 0 then put_collection db collectionName collection' else db)))"



text \<open>
  The loop of \<open>delete\<close>: a hard delete removes the property named by the document's
  \<open>_id\<close> and counts the collection down; a soft delete marks the document in its slot.
\<close>

definition mark_deleted :: "nat \<Rightarrow> Document \<Rightarrow> Document" where
  "mark_deleted now document =
     document\<lparr>d_meta := (d_meta document)\<lparr>dm_deleted := True, dm_updatedAt := now\<rparr>\<rparr>"

fun delete_loop ::
  "nat \<Rightarrow> bool \<Rightarrow> bool \<Rightarrow> (string \<times> Document) list \<Rightarrow> (string \<times> Document) list \<Rightarrow> int \<Rightarrow> nat
   \<Rightarrow> (string \<times> Document) list \<times> int \<times> nat" where
  "delete_loop now hard multi [] docs documentCount deletedCount = (docs, documentCount, deletedCount)"
| "delete_loop now hard multi ((key, document) # rest) docs documentCount deletedCount =
     (let docs' = (if hard then obj_delete (d_id document) docs else upd_doc key (mark_deleted now) docs);
          documentCount' = (if hard then documentCount - 1 else documentCount)
      in if \<not> multi then (docs', documentCount', deletedCount + 1)
         else delete_loop now hard multi rest docs' documentCount' (deletedCount + 1))"

definition delete ::
  "jshost \<Rightarrow> database \<Rightarrow> nat \<Rightarrow> string \<Rightarrow> jsval \<Rightarrow> DeleteOptions option
   \<Rightarrow> error + (DeleteResult \<times> database)" where
  "delete J db now collectionName whr options =
     bind_err (getCollection db collectionName) (\<lambda>collection.
     bind_err (filter_err (live_match J whr) (col_documents collection)) (\<lambda>documents.
       let (docs', documentCount', deletedCount) =
              delete_loop now (hard_delete options) (multi_delete options) documents
                (col_documents collection) (cm_documentCount (col_meta collection)) 0;
           collection' = collection
             \<lparr>col_documents := docs',
              col_meta := (col_meta collection)\<lparr>cm_documentCount := documentCount',
                                                cm_modifiedAt := now\<rparr>\<rparr>
       in Inr (\<lparr>dr_success = True, dr_error = None, dr_deletedCount = deletedCount\<rparr>,
               if deletedCount > 0 then put_collection db collectionName collection' else db)))"

definition not_found_delete :: DeleteResult where
  "not_found_delete = \<lparr>dr_success = False, dr_error = Some ''Document not found'', dr_deletedCount = 0\<rparr>"

definition deleteById ::
  "database \<Rightarrow> nat \<Rightarrow> string \<Rightarrow> string \<Rightarrow> bool \<Rightarrow> error + (DeleteResult \<times> database)" where
  "deleteById db now collectionName ident hard =
     bind_err (getCollection db collectionName) (\<lambda>collection.
       case obj_lookup (col_documents collection) ident of
         Absent \<Rightarrow> Inr (not_found_delete, db)
       | Inherited \<Rightarrow> Inl TypeError
       | Own document \<Rightarrow>
           if dm_deleted (d_meta document) then Inr (not_found_delete, db)
           else
             (let collection' =
                    (if hard
                     then collection
                       \<lparr>col_documents := obj_delete ident (col_documents collection),
                        col_meta := (col_meta collection)
                          \<lparr>cm_documentCount := cm_documentCount (col_meta collection) - 1,
                           cm_modifiedAt := now\<rparr>\<rparr>
                     else collection
                       \<lparr>col_documents := upd_doc ident (mark_deleted now) (col_documents collection),
                        col_meta := (col_meta collection)\<lparr>cm_modifiedAt := now\<rparr>\<rparr>)
              in Inr (\<lparr>dr_success = True, dr_error = None, dr_deletedCount = 1\<rparr>,
                      put_collection db collectionName collection')))"

subsection \<open>Concrete inputs and names used in the statements\<close>

text \<open>A host for evaluation that adds nothing to the computed cases.\<close>

definition toy_js :: jshost where
  "toy_js = \<lparr>js_get_other = (\<lambda>v k. JUndefined), js_less_other = (\<lambda>a b. None),
             js_plus_other = (\<lambda>a b. JUndefined), js_regex_test = (\<lambda>p v. False)\<rparr>"

definition doc_of :: "string \<Rightarrow> obj \<Rightarrow> bool \<Rightarrow> string \<times> Document" where
  "doc_of ident dat del =
     (ident, \<lparr>d_id = ident, d_data = dat,
              d_meta = \<lparr>dm_createdAt = 0, dm_updatedAt = 0, dm_version = 1, dm_deleted = del\<rparr>\<rparr>)"

definition db_of :: "(string \<times> Document) list \<Rightarrow> database" where
  "db_of docs =
     \<lparr>db_collections =
        [(''c'', \<lparr>col_name = ''c'', col_documents = docs,
                 col_meta = \<lparr>cm_createdAt = 0, cm_modifiedAt = 0,
                             cm_documentCount = int (length docs)\<rparr>\<rparr>)]\<rparr>"

text \<open>One document with \<open>x: 1\<close>.\<close>

definition db_x1 :: database where
  "db_x1 = db_of [doc_of ''a'' [(''x'', JNum 1)] False]"

text \<open>The documents of the query example: \<open>a\<close>, \<open>b\<close> and the soft-deleted \<open>c\<close>.\<close>

definition db_abc :: database where
  "db_abc = db_of [doc_of ''a'' [(''x'', JNum 1)] False, doc_of ''b'' [(''x'', JNum 5)] False,
                   doc_of ''c'' [(''x'', JNum 10)] True]"

text \<open>One soft-deleted document.\<close>

definition db_deleted :: database where
  "db_deleted = db_of [doc_of ''a'' [(''x'', JNum 1)] True]"

text \<open>
  A document is selected by a find query when it matches the predicate (if one is
  given) and is not soft-deleted, unless the query includes the deleted.
\<close>

definition selected :: "jshost \<Rightarrow> FindQuery option \<Rightarrow> Document \<Rightarrow> bool" where
  "selected J query doc \<longleftrightarrow>
     (case query_where query of
        None \<Rightarrow> True
      | Some w \<Rightarrow> if truthy w then matchesQuery J (d_data doc) w = Inr True else True)
     \<and> (query_includeDeleted query \<or> \<not> dm_deleted (d_meta doc))"

text \<open>
  The documents map of a collection as the operations build it: an object has each own
  key once, and a document is stored under its own \<open>_id\<close>.
\<close>

definition wf_docs :: "(string \<times> Document) list \<Rightarrow> bool" where
  "wf_docs docs \<longleftrightarrow> distinct (map fst docs) \<and> (\<forall>(k, d) \<in> set docs. d_id d = k)"

subsection \<open>The states a database goes through\<close>

text \<open>
  \<open>generateShortId\<close> returns 21 characters of its alphabet. \<open>insertMany\<close> stores each
  document under the id generated for it without looking whether the id is taken; the
  states below are those in which the random ids of an \<open>insertMany\<close> are new and differ
  from each other.
\<close>

definition short_id_alphabet :: string where
  "short_id_alphabet = ''ABCDEFGHIJKLMNOPQRSTUVWXYZabcdefghijklmnopqrstuvwxyz0123456789''"

definition valid_short_id :: "string \<Rightarrow> bool" where
  "valid_short_id s \<longleftrightarrow> length s = 21 \<and> list_all (\<lambda>c. c \<in> set short_id_alphabet) s"




lemma bind_err_simps [simp]:
  "bind_err (Inl e) f = Inl e" "bind_err (Inr v) f = f v"
  by (simp_all add: bind_err_def)

lemma byte_of_nat: "unat (of_nat k :: byte) = k mod 256"
  by (simp add: unat_of_nat)

lemma u16_decomp:
  assumes "n < 65536"
  shows "(n div 256) mod 256 * 256 + n mod 256 = (n::nat)"
proof -
  have "n div 256 < 256" using assms by simp
  then show ?thesis by simp
qed

lemma u32_decomp:
  assumes "n < 4294967296"
  shows "n div 16777216 * 16777216 + (n div 65536) mod 256 * 65536
         + (n div 256) mod 256 * 256 + n mod 256 = (n::nat)"
proof -
  define a where "a = n div 256"
  define b where "b = a div 256"
  define c where "c = b div 256"
  have n: "n = a * 256 + n mod 256" by (simp add: a_def)
  have a: "a = b * 256 + a mod 256" by (simp add: b_def)
  have b: "b = c * 256 + b mod 256" by (simp add: c_def)
  have c: "c < 256" using assms by (simp add: a_def b_def c_def div_mult2_eq)
  have e1: "n div 65536 = b" by (simp add: a_def b_def div_mult2_eq)
  have e2: "n div 16777216 = c" by (simp add: a_def b_def c_def div_mult2_eq)
  have "c * 16777216 + b mod 256 * 65536 + a mod 256 * 256 + n mod 256 = n"
    using n a b by linarith
  then show ?thesis by (simp add: e1 e2 a_def)
qed

lemma write32_Inr:
  assumes "writeUInt32BE n = Inr bs"
  shows "n < 2 ^ 32" and "length bs = 4" and "readUInt32BE (xs @ bs @ ys) (length xs) = Inr n"
proof -
  show n: "n < 2 ^ 32" using assms by (simp add: writeUInt32BE_def split: if_splits)
  have bs: "bs = [of_nat (n div 2 ^ 24), of_nat (n div 2 ^ 16), of_nat (n div 2 ^ 8), of_nat n]"
    using assms n by (simp add: writeUInt32BE_def)
  show "length bs = 4" by (simp add: bs)
  have "n < 4294967296" using n by simp
  then have "n div 16777216 < 256" by simp
  then have "n div 16777216 mod 256 = n div 16777216" by simp
  with u32_decomp [OF \<open>n < 4294967296\<close>]
  have "n div 16777216 mod 256 * 16777216 + n div 65536 mod 256 * 65536
        + n div 256 mod 256 * 256 + n mod 256 = n" by simp
  with u32_decomp [OF \<open>n < 4294967296\<close>]
  show "readUInt32BE (xs @ bs @ ys) (length xs) = Inr n"
    by (simp add: readUInt32BE_def bs nth_append byte_of_nat)
qed

lemma write16_Inr:
  assumes "writeUInt16BE n = Inr bs"
  shows "n < 2 ^ 16" and "length bs = 2" and "readUInt16BE (xs @ bs @ ys) (length xs) = Inr n"
proof -
  show n: "n < 2 ^ 16" using assms by (simp add: writeUInt16BE_def split: if_splits)
  have bs: "bs = [of_nat (n div 2 ^ 8), of_nat n]"
    using assms n by (simp add: writeUInt16BE_def)
  show "length bs = 2" by (simp add: bs)
  have "n < 65536" using n by simp
  from u16_decomp [OF this] show "readUInt16BE (xs @ bs @ ys) (length xs) = Inr n"
    by (simp add: readUInt16BE_def bs nth_append byte_of_nat)
qed

lemma slice_append: "slice (xs @ m @ ys) (length xs) (length xs + length m) = m"
  by (simp add: slice_def)

lemma bind_err_Inr_iff:
  "bind_err m f = Inr y \<longleftrightarrow> (\<exists>v. m = Inr v \<and> f v = Inr y)"
  by (cases m) simp_all

lemma read32_at:
  "writeUInt32BE n = Inr bs \<Longrightarrow> buf = xs @ bs @ ys \<Longrightarrow> off = length xs
   \<Longrightarrow> readUInt32BE buf off = Inr n"
  by (simp add: write32_Inr(3))

lemma read16_at:
  "writeUInt16BE n = Inr bs \<Longrightarrow> buf = xs @ bs @ ys \<Longrightarrow> off = length xs
   \<Longrightarrow> readUInt16BE buf off = Inr n"
  by (simp add: write16_Inr(3))

lemma slice_at:
  "buf = xs @ m @ ys \<Longrightarrow> off = length xs \<Longrightarrow> e = off + length m \<Longrightarrow> slice buf off e = m"
  by (simp add: slice_append)

lemma read_one_chunk:
  assumes ser: "serialize_chunk c = Inr part"
    and tag: "c_authTag c \<noteq> Some []"
  shows "read_chunks (pre @ part @ rest) (length pre) (Suc n) acc
         = read_chunks (pre @ part @ rest) (length pre + length part) n (acc @ [c])"
proof -
  from ser obtain indexBuf ivLengthBuf authTagPart dataLengthBuf where
    w1: "writeUInt32BE (c_index c) = Inr indexBuf" and
    w2: "writeUInt16BE (length (c_iv c)) = Inr ivLengthBuf" and
    w3: "(case c_authTag c of
            Some authTag \<Rightarrow> bind_err (writeUInt16BE (length authTag)) (\<lambda>b. Inr (b @ authTag))
          | None \<Rightarrow> writeUInt16BE 0) = Inr authTagPart" and
    w4: "writeUInt32BE (length (c_data c)) = Inr dataLengthBuf" and
    part: "part = indexBuf @ ivLengthBuf @ c_iv c @ authTagPart @ dataLengthBuf @ c_data c"
    unfolding serialize_chunk_def bind_err_Inr_iff by auto
  let ?buf = "pre @ part @ rest"
  obtain tl_buf tagbytes where
    w3': "writeUInt16BE (length tagbytes) = Inr tl_buf" and
    atp: "authTagPart = tl_buf @ tagbytes" and
    tg: "c_authTag c = (if length tagbytes > 0 then Some tagbytes else None)"
  proof (cases "c_authTag c")
    case None
    with w3 have "writeUInt16BE (length ([]::buffer)) = Inr authTagPart" by simp
    then show ?thesis using None that [of "[]" authTagPart] by simp
  next
    case (Some t)
    with w3 obtain b where "writeUInt16BE (length t) = Inr b" "authTagPart = b @ t"
      by (auto simp: bind_err_Inr_iff)
    then show ?thesis using Some tag that [of t b] by simp
  qed
  have l1: "length indexBuf = 4" by (rule write32_Inr(2) [OF w1])
  have l2: "length ivLengthBuf = 2" by (rule write16_Inr(2) [OF w2])
  have l3: "length tl_buf = 2" by (rule write16_Inr(2) [OF w3'])
  have l4: "length dataLengthBuf = 4" by (rule write32_Inr(2) [OF w4])
  have r1: "readUInt32BE ?buf (length pre) = Inr (c_index c)"
    by (rule read32_at [OF w1, where xs = pre and ys = "ivLengthBuf @ c_iv c @ authTagPart @ dataLengthBuf @ c_data c @ rest"])
       (simp_all add: part)
  have r2: "readUInt16BE ?buf (length pre + 4) = Inr (length (c_iv c))"
    by (rule read16_at [OF w2, where xs = "pre @ indexBuf" and ys = "c_iv c @ authTagPart @ dataLengthBuf @ c_data c @ rest"])
       (simp_all add: part l1)
  have s1: "slice ?buf (length pre + 6) (length pre + 6 + length (c_iv c)) = c_iv c"
    by (rule slice_at [where xs = "pre @ indexBuf @ ivLengthBuf" and ys = "authTagPart @ dataLengthBuf @ c_data c @ rest"])
       (simp_all add: part l1 l2)
  have r3: "readUInt16BE ?buf (length pre + 6 + length (c_iv c)) = Inr (length tagbytes)"
    by (rule read16_at [OF w3', where xs = "pre @ indexBuf @ ivLengthBuf @ c_iv c" and ys = "tagbytes @ dataLengthBuf @ c_data c @ rest"])
       (simp_all add: part l1 l2 atp)
  have s2: "slice ?buf (length pre + 6 + length (c_iv c) + 2) (length pre + 6 + length (c_iv c) + 2 + length tagbytes) = tagbytes"
    by (rule slice_at [where xs = "pre @ indexBuf @ ivLengthBuf @ c_iv c @ tl_buf" and ys = "dataLengthBuf @ c_data c @ rest"])
       (simp_all add: part l1 l2 l3 atp)
  have r4: "readUInt32BE ?buf (length pre + 6 + length (c_iv c) + 2 + length tagbytes) = Inr (length (c_data c))"
    by (rule read32_at [OF w4, where xs = "pre @ indexBuf @ ivLengthBuf @ c_iv c @ tl_buf @ tagbytes" and ys = "c_data c @ rest"])
       (simp_all add: part l1 l2 l3 atp)
  have s3: "slice ?buf (length pre + 6 + length (c_iv c) + 2 + length tagbytes + 4)
               (length pre + 6 + length (c_iv c) + 2 + length tagbytes + 4 + length (c_data c)) = c_data c"
    by (rule slice_at [where xs = "pre @ indexBuf @ ivLengthBuf @ c_iv c @ tl_buf @ tagbytes @ dataLengthBuf" and ys = rest])
       (simp_all add: part l1 l2 l3 l4 atp)
  have len: "length part = 12 + length (c_iv c) + length tagbytes + length (c_data c)"
    by (simp add: part atp l1 l2 l3 l4)
  have c: "\<lparr>c_index = c_index c, c_iv = c_iv c, c_data = c_data c,
            c_authTag = (if length tagbytes > 0 then Some tagbytes else None)\<rparr> = c"
    using tg by (cases c) simp
  show ?thesis
  proof (cases "length tagbytes > 0")
    case True
    then show ?thesis
      using r1 r2 s1 r3 s2 r4 s3 c
      by (simp add: Let_def len ac_simps)
  next
    case False
    then have "tagbytes = []" by simp
    then show ?thesis
      using r1 r2 s1 r3 r4 s3 c
      by (simp add: Let_def len ac_simps)
  qed
qed

lemma serialize_chunks_Inr:
  "serialize_chunks cs = Inr parts \<Longrightarrow> length parts = length cs"
  by (induction cs arbitrary: parts) (auto simp: bind_err_Inr_iff)

lemma read_chunks_serialized:
  assumes "serialize_chunks cs = Inr parts" and "\<forall>c \<in> set cs. c_authTag c \<noteq> Some []"
  shows "read_chunks (pre @ concat parts @ post) (length pre) (length cs) acc = Inr (acc @ cs)"
  using assms
proof (induction cs arbitrary: pre parts acc)
  case Nil
  then show ?case by simp
next
  case (Cons c cs)
  from Cons.prems(1) obtain part parts' where
    p: "serialize_chunk c = Inr part" "serialize_chunks cs = Inr parts'" "parts = part # parts'"
    by (auto simp: bind_err_Inr_iff)
  have tag: "c_authTag c \<noteq> Some []" using Cons.prems(2) by simp
  have "read_chunks (pre @ part @ (concat parts' @ post)) (length pre) (Suc (length cs)) acc
        = read_chunks (pre @ part @ (concat parts' @ post)) (length pre + length part) (length cs) (acc @ [c])"
    by (rule read_one_chunk [OF p(1) tag])
  also have "\<dots> = read_chunks ((pre @ part) @ concat parts' @ post) (length (pre @ part)) (length cs) (acc @ [c])"
    by simp
  also have "\<dots> = Inr ((acc @ [c]) @ cs)"
    using Cons.prems(2) by (intro Cons.IH [OF p(2)]) simp
  finally show ?case by (simp add: p(3))
qed

lemma deserialize_serialize:
  assumes ser: "serializeEncryptedData H E = Inr buf"
    and js: "json_parse_meta H (json_stringify_meta H (e_metadata E)) = Inr (e_metadata E)"
    and cnt: "nat (chunkCount_or_1 (e_metadata E)) = length (e_chunks E)"
    and tags: "\<forall>c \<in> set (e_chunks E). c_authTag c \<noteq> Some []"
  shows "deserializeEncryptedData H buf = Inr E"
proof -
  let ?mb = "json_stringify_meta H (e_metadata E)"
  from ser obtain ml parts where
    w: "writeUInt32BE (length ?mb) = Inr ml" and
    ps: "serialize_chunks (e_chunks E) = Inr parts" and
    buf: "buf = ml @ ?mb @ concat parts"
    by (auto simp: serializeEncryptedData_def Let_def bind_err_Inr_iff)
  have l: "length ml = 4" by (rule write32_Inr(2) [OF w])
  have r: "readUInt32BE buf 0 = Inr (length ?mb)"
    using write32_Inr(3) [OF w, of "[]" "?mb @ concat parts"] by (simp add: buf)
  have s: "slice buf 4 (4 + length ?mb) = ?mb"
    by (rule slice_at [where xs = ml and ys = "concat parts"]) (simp_all add: buf l)
  have "read_chunks ((ml @ ?mb) @ concat parts @ []) (length (ml @ ?mb)) (length (e_chunks E)) []
        = Inr ([] @ e_chunks E)"
    by (rule read_chunks_serialized [OF ps tags])
  then have rc: "read_chunks buf (4 + length ?mb) (length (e_chunks E)) [] = Inr (e_chunks E)"
    by (simp add: buf l)
  show ?thesis
    by (simp add: deserializeEncryptedData_def r s js cnt rc)
qed

lemma decrypt_chunks_all_plain:
  assumes "\<forall>c \<in> set cs. gcm_decrypt H (deriveKey H mk (m_salt md) (''chunk_'' @ show_nat (c_index c)))
                (c_iv c) (c_authTag c) (c_data c) = Plain (p c)"
  shows "decrypt_chunks H md mk cs acc = Inr (acc @ map p cs)"
  using assms by (induction cs arbitrary: acc) simp_all

lemma slice_chunk:
  "slice dat a (min (a + s) (length dat)) = take s (drop a dat)"
  by (simp add: slice_def min_def)

lemma concat_take_drop:
  "concat (map (\<lambda>i. take s (drop (i * s) dat)) [0..<m]) = take (m * s) dat"
proof (induction m)
  case 0
  then show ?case by simp
next
  case (Suc m)
  have "take (m * s) dat @ take s (drop (m * s) dat) = take (m * s + s) dat"
    by (simp add: take_add)
  moreover have "m * s + s = Suc m * s" by simp
  ultimately show ?case using Suc by simp
qed

lemma concat_slices_take:
  "concat (map (\<lambda>i. slice dat (i * s) (min (i * s + s) (length dat))) [0..<m]) = take (m * s) dat"
  by (simp add: slice_chunk concat_take_drop)

lemma ceil_div_covers:
  assumes "0 < (s::nat)"
  shows "n \<le> ((n + s - 1) div s) * s"
proof -
  have "n + s - 1 = ((n + s - 1) div s) * s + (n + s - 1) mod s" by simp
  moreover have "(n + s - 1) mod s < s" using assms by simp
  ultimately show ?thesis by linarith
qed

lemma concat_slices:
  assumes "0 < s"
  shows "concat (map (\<lambda>i. slice dat (i * s) (min (i * s + s) (length dat)))
                  [0..<(length dat + s - 1) div s]) = dat"
  using ceil_div_covers [OF assms, of "length dat"] by (simp add: concat_slices_take)

lemma toy_host_ok: "host_ok toy_host"
  by (auto simp: host_ok_def toy_host_def KEY_LENGTH_def IV_LENGTH_def AUTH_TAG_LENGTH_def
      toy_tag_def comp_def min_def)

lemma c_index_encrypt_chunk_at [simp]:
  "c_index (encrypt_chunk_at H salt ivs dat mk s i) = i"
  by (simp add: encrypt_chunk_at_def Let_def split: prod.split)

lemma deriveKey_length: "host_ok H \<Longrightarrow> length (deriveKey H mk salt ctx) = KEY_LENGTH"
  by (simp add: deriveKey_def host_ok_def Let_def)

lemma decrypt_encrypt_chunk_at:
  assumes "host_ok H" and "length (ivs i) = IV_LENGTH"
  shows "gcm_decrypt H (deriveKey H mk salt (''chunk_'' @ show_nat (c_index (encrypt_chunk_at H salt ivs dat mk s i))))
           (c_iv (encrypt_chunk_at H salt ivs dat mk s i))
           (c_authTag (encrypt_chunk_at H salt ivs dat mk s i))
           (c_data (encrypt_chunk_at H salt ivs dat mk s i))
         = Plain (slice dat (i * s) (min (i * s + s) (length dat)))"
proof -
  have k: "length (deriveKey H mk salt (''chunk_'' @ show_nat i)) = KEY_LENGTH"
    by (rule deriveKey_length [OF assms(1)])
  from assms(1) k assms(2) show ?thesis
    unfolding host_ok_def
    by (simp add: encrypt_chunk_at_def Let_def split_beta)
qed

lemma encrypt_chunk_at_shape:
  assumes "host_ok H" and "length (ivs i) = IV_LENGTH"
  shows "\<exists>t. c_authTag (encrypt_chunk_at H salt ivs dat mk s i) = Some t \<and> length t = AUTH_TAG_LENGTH"
    and "length (c_data (encrypt_chunk_at H salt ivs dat mk s i)) \<le> s"
    and "c_iv (encrypt_chunk_at H salt ivs dat mk s i) = ivs i"
proof -
  have k: "length (deriveKey H mk salt (''chunk_'' @ show_nat i)) = KEY_LENGTH"
    by (rule deriveKey_length [OF assms(1)])
  from assms(1) k assms(2)
  show "\<exists>t. c_authTag (encrypt_chunk_at H salt ivs dat mk s i) = Some t \<and> length t = AUTH_TAG_LENGTH"
    unfolding host_ok_def by (simp add: encrypt_chunk_at_def Let_def split_beta)
  from assms(1) k assms(2)
  have "length (c_data (encrypt_chunk_at H salt ivs dat mk s i))
        = length (slice dat (i * s) (min (i * s + s) (length dat)))"
    unfolding host_ok_def by (simp add: encrypt_chunk_at_def Let_def split_beta)
  then show "length (c_data (encrypt_chunk_at H salt ivs dat mk s i)) \<le> s"
    by (simp add: slice_chunk)
  show "c_iv (encrypt_chunk_at H salt ivs dat mk s i) = ivs i"
    by (simp add: encrypt_chunk_at_def Let_def split_beta)
qed

lemma encryptDataChunked_Inr:
  assumes "0 < s" and "encryptDataChunked H salt ivs dat mk s = Inr E"
  shows "e_chunks E = map (encrypt_chunk_at H salt ivs dat mk s) [0..<(length dat + s - 1) div s]"
    and "e_metadata E = \<lparr>m_salt = salt, m_algorithm = ALGORITHM,
                          m_chunkCount = Some (int ((length dat + s - 1) div s)),
                          m_chunkSize = Some (int s)\<rparr>"
  using assms by (auto simp: encryptDataChunked_def Let_def)

lemma decryptDataChunked_sorted_invariant:
  assumes "mset cs' = mset (e_chunks E)" and "distinct (map c_index (e_chunks E))"
  shows "decryptDataChunked H (E\<lparr>e_chunks := cs'\<rparr>) mk = decryptDataChunked H E mk"
proof -
  have s: "set cs' = set (e_chunks E)" using assms(1) by (rule mset_eq_setD)
  have inj: "inj_on c_index (set (e_chunks E))"
    using assms(2) by (simp add: distinct_map)
  have "sort_key c_index cs' = sort_key c_index (e_chunks E)"
    by (rule sort_key_inj_key_eq) (simp_all add: assms(1) s inj)
  then show ?thesis by (simp add: decryptDataChunked_def)
qed

lemma decryptDataChunked_encrypted:
  assumes ok: "host_ok H" and ivs: "\<forall>i. length (ivs i) = IV_LENGTH" and s: "0 < s"
    and E: "encryptDataChunked H salt ivs dat mk s = Inr E"
  shows "decryptDataChunked H E mk = Inr dat"
proof -
  let ?n = "(length dat + s - 1) div s"
  let ?cs = "map (encrypt_chunk_at H salt ivs dat mk s) [0..<?n]"
  let ?p = "\<lambda>c. slice dat (c_index c * s) (min (c_index c * s + s) (length dat))"
  have cs: "e_chunks E = ?cs" and md: "m_salt (e_metadata E) = salt"
    using encryptDataChunked_Inr [OF s E] by simp_all
  have idx: "map c_index ?cs = [0..<?n]"
    by (simp add: comp_def map_idI)
  have sorted: "sort_key c_index ?cs = ?cs"
    by (rule sort_key_id_if_sorted) (simp only: idx sorted_upt)
  have d: "decrypt_chunks H (e_metadata E) mk ?cs [] = Inr ([] @ map ?p ?cs)"
  proof (rule decrypt_chunks_all_plain, rule ballI)
    fix c assume "c \<in> set ?cs"
    then obtain i where c: "c = encrypt_chunk_at H salt ivs dat mk s i" by auto
    show "gcm_decrypt H (deriveKey H mk (m_salt (e_metadata E)) (''chunk_'' @ show_nat (c_index c)))
            (c_iv c) (c_authTag c) (c_data c) = Plain (?p c)"
      unfolding c md using decrypt_encrypt_chunk_at [OF ok, of ivs i mk salt dat s] ivs by simp
  qed
  have c: "concat (map ?p ?cs) = dat"
    using concat_slices [OF s, of dat] by (simp add: comp_def)
  have "decrypt_chunks H (e_metadata E) mk (sort_key c_index (e_chunks E)) [] = Inr (map ?p ?cs)"
    using d by (simp only: cs sorted append_Nil)
  then show ?thesis
    unfolding decryptDataChunked_def Let_def by (simp only: bind_err_simps c)
qed

lemma two_chunks:
  assumes "0 < s" and "s < (n::nat)"
  shows "2 \<le> (n + s - 1) div s"
proof -
  have "2 * s \<le> n + s - 1" using assms by linarith
  then show ?thesis using assms(1) by (simp add: less_eq_div_iff_mult_less_eq)
qed


lemma serialize_chunks_ok:
  assumes "\<forall>c \<in> set cs. \<exists>part. serialize_chunk c = Inr part"
  shows "\<exists>parts. serialize_chunks cs = Inr parts"
  using assms by (induction cs) auto

lemma serialize_ok:
  assumes "length (json_stringify_meta H (e_metadata E)) < 2 ^ 32"
    and "\<forall>c \<in> set (e_chunks E). \<exists>part. serialize_chunk c = Inr part"
  shows "\<exists>buf. serializeEncryptedData H E = Inr buf"
proof -
  obtain parts where "serialize_chunks (e_chunks E) = Inr parts"
    using serialize_chunks_ok [OF assms(2)] by blast
  then show ?thesis using assms(1)
    by (simp add: serializeEncryptedData_def Let_def writeUInt32BE_def)
qed

lemma decrypt_permuted_chunks:
  assumes ok: "host_ok H" and ivs: "\<forall>i. length (ivs i) = IV_LENGTH"
    and s: "0 < chunkSize" and big: "chunkSize < length dat"
    and E: "encryptDataChunked H salt ivs dat masterKey chunkSize = Inr E"
    and js: "json_parse_meta H (json_stringify_meta H (e_metadata E)) = Inr (e_metadata E)"
    and perm: "mset chunks' = mset (e_chunks E)"
    and ser: "serializeEncryptedData H (E\<lparr>e_chunks := chunks'\<rparr>) = Inr buf"
  shows "decryptAuto H buf masterKey = Inr dat"
proof -
  let ?n = "(length dat + chunkSize - 1) div chunkSize"
  let ?E' = "E\<lparr>e_chunks := chunks'\<rparr>"
  note sh = encryptDataChunked_Inr [OF s E]
  have n2: "2 \<le> ?n" by (rule two_chunks [OF s big])
  have len: "length chunks' = ?n"
    using mset_eq_length [OF perm] by (simp add: sh(1))
  have set: "set chunks' = set (e_chunks E)" using perm by (rule mset_eq_setD)
  have cnt: "nat (chunkCount_or_1 (e_metadata ?E')) = length (e_chunks ?E')"
    using n2 by (simp add: sh(2) chunkCount_or_1_def len)
  have tags: "\<forall>c \<in> set (e_chunks ?E'). c_authTag c \<noteq> Some []"
  proof
    fix c assume "c \<in> set (e_chunks ?E')"
    then obtain i where c: "c = encrypt_chunk_at H salt ivs dat masterKey chunkSize i"
      using set by (auto simp: sh(1))
    from encrypt_chunk_at_shape(1) [OF ok, of ivs i salt dat masterKey chunkSize] ivs
    show "c_authTag c \<noteq> Some []" by (auto simp: c AUTH_TAG_LENGTH_def)
  qed
  have de: "deserializeEncryptedData H buf = Inr ?E'"
    by (rule deserialize_serialize [OF ser _ cnt tags]) (simp add: js)
  have dist: "distinct (map c_index (e_chunks E))"
    by (simp add: sh(1) comp_def map_idI)
  have "decryptDataChunked H ?E' masterKey = decryptDataChunked H E masterKey"
    by (rule decryptDataChunked_sorted_invariant [OF perm dist])
  also have "\<dots> = Inr dat"
    by (rule decryptDataChunked_encrypted [OF ok ivs s E])
  finally show ?thesis using n2
    by (simp add: decryptAuto_def de sh(2))
qed

text \<open>
  Claim C9. Take the container that \<open>encryptDataChunked\<close> builds for a buffer longer
  than the chunk size, put its chunk records in any other order, serialize and hand
  the bytes to \<open>decryptAuto\<close>: the original plaintext comes back.
\<close>

theorem chunk_reordering:
  assumes "host_ok H" and "\<forall>i. length (ivs i) = IV_LENGTH"
    and "0 < chunkSize" and "chunkSize < length dat"
    and "encryptDataChunked H salt ivs dat masterKey chunkSize = Inr E"
    and "json_parse_meta H (json_stringify_meta H (e_metadata E)) = Inr (e_metadata E)"
    and "mset chunks' = mset (e_chunks E)"
    and "serializeEncryptedData H (E\<lparr>e_chunks := chunks'\<rparr>) = Inr buf"
  shows "decryptAuto H buf masterKey = Inr dat"
  using assms by (rule decrypt_permuted_chunks)



lemma toy_json_small:
  assumes "length (m_salt md) < 256"
    and "case m_chunkCount md of None \<Rightarrow> True | Some n \<Rightarrow> 0 \<le> n \<and> n < 256"
    and "case m_chunkSize md of None \<Rightarrow> True | Some n \<Rightarrow> 0 \<le> n \<and> n < 256"
    and "length (m_algorithm md) < 1000"
  shows "json_roundtrip toy_host md"
proof -
  have a: "map ((\<lambda>b::byte. char_of (unat b)) \<circ> (\<lambda>c. of_nat (of_char c))) (m_algorithm md) = m_algorithm md"
    by (rule map_idI) (simp add: unat_of_nat)
  have u: "unat (of_nat (length (m_salt md)) :: byte) = length (m_salt md)"
    using assms(1) by (simp add: unat_of_nat)
  have o1: "\<And>v. (case v of None \<Rightarrow> True | Some n \<Rightarrow> 0 \<le> n \<and> n < 256) \<Longrightarrow>
     (case toy_opt v of [f, x] \<Rightarrow> toy_unopt f x = v | _ \<Rightarrow> False)"
    by (auto simp: toy_opt_def toy_unopt_def uint_word_of_int split: option.splits)
  obtain f1 v1 where c1: "toy_opt (m_chunkCount md) = [f1, v1]" "toy_unopt f1 v1 = m_chunkCount md"
    using o1 [OF assms(2)] by (auto split: list.splits)
  obtain f2 v2 where c2: "toy_opt (m_chunkSize md) = [f2, v2]" "toy_unopt f2 v2 = m_chunkSize md"
    using o1 [OF assms(3)] by (auto split: list.splits)
  have "toy_parse (toy_stringify md) = Inr md"
    by (simp add: toy_parse_def toy_stringify_def u c1 c2 utf8_def a)
  moreover have "length (toy_stringify md) < 2 ^ 32"
    using assms(1,4) by (simp add: toy_stringify_def c1 c2 utf8_def)
  ultimately show ?thesis by (simp add: json_roundtrip_def toy_host_def)
qed



lemma decrypt_chunks_Inr:
  assumes "decrypt_chunks H (e_metadata E) mk cs acc = Inr ds"
  shows "(\<forall>c \<in> set cs. \<exists>p. chunk_result H E mk (''chunk_'' @ show_nat (c_index c)) c = Plain p)
         \<and> ds = acc @ map (\<lambda>c. plain_of (chunk_result H E mk (''chunk_'' @ show_nat (c_index c)) c)) cs"
  using assms
proof (induction cs arbitrary: acc)
  case Nil
  then show ?case by simp
next
  case (Cons c cs)
  show ?case
  proof (cases "chunk_result H E mk (''chunk_'' @ show_nat (c_index c)) c")
    case SetupFailed
    then show ?thesis using Cons.prems by simp
  next
    case AuthFailed
    then show ?thesis using Cons.prems by simp
  next
    case (Plain p)
    then have "decrypt_chunks H (e_metadata E) mk cs (acc @ [p]) = Inr ds"
      using Cons.prems by simp
    from Cons.IH [OF this] show ?thesis using Plain by (simp add: plain_of_def)
  qed
qed

lemma decrypt_chunks_AuthFailed:
  assumes "\<exists>c \<in> set cs. chunk_result H E mk (''chunk_'' @ show_nat (c_index c)) c = AuthFailed"
    and "\<forall>c \<in> set cs. chunk_result H E mk (''chunk_'' @ show_nat (c_index c)) c \<noteq> SetupFailed"
  shows "\<exists>c \<in> set cs. decrypt_chunks H (e_metadata E) mk cs acc = Inl (DecryptionFailed (Some (c_index c)))"
  using assms
proof (induction cs arbitrary: acc)
  case Nil
  then show ?case by simp
next
  case (Cons c cs)
  show ?case
  proof (cases "chunk_result H E mk (''chunk_'' @ show_nat (c_index c)) c")
    case SetupFailed
    then show ?thesis using Cons.prems(2) by simp
  next
    case AuthFailed
    then show ?thesis by simp
  next
    case (Plain p)
    then have "\<exists>c \<in> set cs. chunk_result H E mk (''chunk_'' @ show_nat (c_index c)) c = AuthFailed"
      using Cons.prems(1) by auto
    moreover have "\<forall>c \<in> set cs. chunk_result H E mk (''chunk_'' @ show_nat (c_index c)) c \<noteq> SetupFailed"
      using Cons.prems(2) by simp
    ultimately obtain c' where "c' \<in> set cs"
      "decrypt_chunks H (e_metadata E) mk cs (acc @ [p]) = Inl (DecryptionFailed (Some (c_index c')))"
      using Cons.IH by blast
    then show ?thesis using Plain by auto
  qed
qed

text \<open>
  Claim C4. Decryption returns plaintext only when every chunk it used passed the
  cipher's verification, and then the plaintext is exactly the concatenation of the
  verified chunk plaintexts in index order. When a chunk fails verification (and none
  fails earlier in the set-up of the decipher), \<open>decryptDataChunked\<close> throws the
  decryption error naming a chunk, \<open>decryptData\<close> throws the decryption error, and
  \<open>decryptAuto\<close> returns plaintext only through one of the two.
\<close>

theorem decrypt_all_or_nothing:
  "(decryptDataChunked H E masterKey = Inr pt \<longrightarrow>
      (\<forall>c \<in> set (e_chunks E). \<exists>p. chunk_result H E masterKey (''chunk_'' @ show_nat (c_index c)) c = Plain p)
      \<and> pt = concat (map (\<lambda>c. plain_of (chunk_result H E masterKey (''chunk_'' @ show_nat (c_index c)) c))
                       (sort_key c_index (e_chunks E))))
   \<and> ((\<exists>c \<in> set (e_chunks E). chunk_result H E masterKey (''chunk_'' @ show_nat (c_index c)) c = AuthFailed)
        \<and> (\<forall>c \<in> set (e_chunks E). chunk_result H E masterKey (''chunk_'' @ show_nat (c_index c)) c \<noteq> SetupFailed)
      \<longrightarrow> (\<exists>c \<in> set (e_chunks E). decryptDataChunked H E masterKey = Inl (DecryptionFailed (Some (c_index c)))))
   \<and> (decryptData H E masterKey = Inr pt \<longrightarrow>
        (\<exists>c rest. e_chunks E = c # rest \<and> chunk_result H E masterKey [] c = Plain pt))
   \<and> ((\<exists>c rest. e_chunks E = c # rest \<and> chunk_result H E masterKey [] c = AuthFailed)
      \<longrightarrow> decryptData H E masterKey = Inl (DecryptionFailed None))
   \<and> (decryptAuto H buf masterKey = Inr pt \<longrightarrow>
        (\<exists>E'. deserializeEncryptedData H buf = Inr E'
           \<and> (decryptDataChunked H E' masterKey = Inr pt \<or> decryptData H E' masterKey = Inr pt)))"
proof (intro conjI impI)
  assume a: "decryptDataChunked H E masterKey = Inr pt"
  then obtain ds where ds: "decrypt_chunks H (e_metadata E) masterKey (sort_key c_index (e_chunks E)) [] = Inr ds"
    and pt: "pt = concat ds"
    by (auto simp: decryptDataChunked_def Let_def bind_err_Inr_iff)
  from decrypt_chunks_Inr [OF ds]
  show "\<forall>c \<in> set (e_chunks E). \<exists>p. chunk_result H E masterKey (''chunk_'' @ show_nat (c_index c)) c = Plain p"
    by simp
  from decrypt_chunks_Inr [OF ds]
  show "pt = concat (map (\<lambda>c. plain_of (chunk_result H E masterKey (''chunk_'' @ show_nat (c_index c)) c))
                       (sort_key c_index (e_chunks E)))"
    by (simp add: pt)
next
  assume a: "(\<exists>c \<in> set (e_chunks E). chunk_result H E masterKey (''chunk_'' @ show_nat (c_index c)) c = AuthFailed)
        \<and> (\<forall>c \<in> set (e_chunks E). chunk_result H E masterKey (''chunk_'' @ show_nat (c_index c)) c \<noteq> SetupFailed)"
  have "\<exists>c \<in> set (sort_key c_index (e_chunks E)).
          decrypt_chunks H (e_metadata E) masterKey (sort_key c_index (e_chunks E)) []
          = Inl (DecryptionFailed (Some (c_index c)))"
    by (rule decrypt_chunks_AuthFailed) (use a in simp_all)
  then show "\<exists>c \<in> set (e_chunks E). decryptDataChunked H E masterKey = Inl (DecryptionFailed (Some (c_index c)))"
    by (auto simp: decryptDataChunked_def Let_def)
next
  assume "decryptData H E masterKey = Inr pt"
  then show "\<exists>c rest. e_chunks E = c # rest \<and> chunk_result H E masterKey [] c = Plain pt"
    by (auto simp: decryptData_def Let_def split: list.splits dec_result.splits)
next
  assume "\<exists>c rest. e_chunks E = c # rest \<and> chunk_result H E masterKey [] c = AuthFailed"
  then show "decryptData H E masterKey = Inl (DecryptionFailed None)"
    by (auto simp: decryptData_def Let_def)
next
  assume "decryptAuto H buf masterKey = Inr pt"
  then show "\<exists>E'. deserializeEncryptedData H buf = Inr E'
           \<and> (decryptDataChunked H E' masterKey = Inr pt \<or> decryptData H E' masterKey = Inr pt)"
    by (auto simp: decryptAuto_def bind_err_Inr_iff split: if_splits)
qed

lemma upt3: "[0..<3] = [0, 1, 2]"
  by (simp add: upt_rec numeral_2_eq_2)

lemma toy_sel [simp]:
  "gcm_encrypt toy_host k iv p = (map (\<lambda>b. b + toy_key_byte k) p, toy_tag k iv p)"
  "gcm_decrypt toy_host k iv tag ct =
     (case tag of
        None \<Rightarrow> AuthFailed
      | Some t \<Rightarrow>
          if length t \<noteq> 16 then SetupFailed
          else (let p = map (\<lambda>b. b - toy_key_byte k) ct
                in if t = toy_tag k iv p then Plain p else AuthFailed))"
  by (simp_all add: toy_host_def)

lemma toy_key: "deriveKey toy_host ''correct horse'' toy_salt ctx
   = [99, 111, 114, 114, 101, 99, 116, 32, 104, 111, 114, 115, 101] @ replicate 19 0"
  by (simp add: deriveKey_def normalizeMasterKey_def toy_host_def utf8_def Let_def)

lemma toy_key_byte_key [simp]:
  "toy_key_byte (deriveKey toy_host ''correct horse'' toy_salt ctx) = 99"
  by (simp add: toy_key toy_key_byte_def)

lemma toy_key_byte_iv [simp]: "toy_key_byte (toy_ivs i) = of_nat i"
  by (simp add: toy_ivs_def toy_key_byte_def replicate_Suc [symmetric] del: replicate_Suc replicate.simps)
     (simp add: numeral_eq_Suc)

lemma toy_container_chunks:
  "e_chunks toy_container =
     [\<lparr>c_index = 0, c_iv = toy_ivs 0, c_data = [100, 101], c_authTag = Some (replicate 16 102)\<rparr>,
      \<lparr>c_index = 1, c_iv = toy_ivs 1, c_data = [102, 103], c_authTag = Some (replicate 16 107)\<rparr>,
      \<lparr>c_index = 2, c_iv = toy_ivs 2, c_data = [104], c_authTag = Some (replicate 16 106)\<rparr>]"
  unfolding toy_container_def upt3
  by (simp add: encrypt_chunk_at_def Let_def slice_def toy_tag_def)

lemma toy_tampered_chunks:
  "e_chunks toy_tampered =
     [\<lparr>c_index = 0, c_iv = toy_ivs 0, c_data = [100, 101], c_authTag = Some (replicate 16 102)\<rparr>,
      \<lparr>c_index = 1, c_iv = toy_ivs 1, c_data = [0, 0], c_authTag = Some (replicate 16 107)\<rparr>,
      \<lparr>c_index = 2, c_iv = toy_ivs 2, c_data = [104], c_authTag = Some (replicate 16 106)\<rparr>]"
  by (simp add: toy_tampered_def toy_container_chunks)

lemma toy_tampered_salt: "m_salt (e_metadata toy_tampered) = toy_salt"
  by (simp add: toy_tampered_def toy_container_def auto_metadata_def)

theorem decrypt_all_or_nothing_witness:
  "decryptDataChunked toy_host toy_tampered ''correct horse'' = Inl (DecryptionFailed (Some 1))"
proof -
  have r: "decryptDataChunked toy_host toy_tampered ''correct horse'' = Inl (DecryptionFailed (Some 1))"
    unfolding decryptDataChunked_def
    by (simp add: toy_tampered_chunks toy_tampered_salt toy_tag_def)
  have hyp: "(\<exists>c \<in> set (e_chunks toy_tampered).
           chunk_result toy_host toy_tampered ''correct horse'' (''chunk_'' @ show_nat (c_index c)) c = AuthFailed)
        \<and> (\<forall>c \<in> set (e_chunks toy_tampered).
           chunk_result toy_host toy_tampered ''correct horse'' (''chunk_'' @ show_nat (c_index c)) c \<noteq> SetupFailed)"
    by (simp add: toy_tampered_chunks toy_tampered_salt toy_tag_def)
  with decrypt_all_or_nothing [of toy_host toy_tampered "''correct horse''" "[]" "[]"]
  have "\<exists>c \<in> set (e_chunks toy_tampered).
          decryptDataChunked toy_host toy_tampered ''correct horse'' = Inl (DecryptionFailed (Some (c_index c)))"
    by blast
  then show ?thesis by (simp add: r)
qed

lemma toy_container_encrypted:
  "encryptDataChunked toy_host toy_salt toy_ivs [1, 2, 3, 4, 5] ''correct horse'' 2 = Inr toy_container"
proof -
  have n: "(length [1, 2, 3, 4, 5 :: byte] + 2 - 1) div 2 = (3::nat)" by simp
  have z: "(2::nat) \<noteq> 0" "\<not> length [1, 2, 3, 4, 5 :: byte] \<le> 2" by simp_all
  show ?thesis
    unfolding encryptDataChunked_def toy_container_def auto_metadata_def Let_def n
    by (simp only: z if_False)
qed

theorem chunk_reordering_witness:
  "\<exists>buf. serializeEncryptedData toy_host
            (toy_container\<lparr>e_chunks := [e_chunks toy_container ! 2, e_chunks toy_container ! 1,
                                            e_chunks toy_container ! 0]\<rparr>) = Inr buf
         \<and> decryptAuto toy_host buf ''correct horse'' = Inr [1, 2, 3, 4, 5]"
proof -
  let ?E' = "toy_container\<lparr>e_chunks := [e_chunks toy_container ! 2, e_chunks toy_container ! 1,
                                            e_chunks toy_container ! 0]\<rparr>"
  have ivs: "\<forall>i. length (toy_ivs i) = IV_LENGTH" by (simp add: toy_ivs_def IV_LENGTH_def)
  have js: "json_roundtrip toy_host (e_metadata toy_container)"
    unfolding toy_container_def
    by (rule toy_json_small) (simp_all add: auto_metadata_def toy_salt_def ALGORITHM_def)
  have perm: "mset (e_chunks ?E') = mset (e_chunks toy_container)"
    by (simp add: toy_container_chunks)
  have "\<forall>c \<in> set (e_chunks ?E'). \<exists>part. serialize_chunk c = Inr part"
    by (simp add: toy_container_chunks serialize_chunk_def
        writeUInt32BE_def writeUInt16BE_def toy_ivs_def)
  then obtain buf where ser: "serializeEncryptedData toy_host ?E' = Inr buf"
    using serialize_ok [of toy_host ?E'] js by (auto simp: json_roundtrip_def)
  have "decryptAuto toy_host buf ''correct horse'' = Inr [1, 2, 3, 4, 5]"
    by (rule chunk_reordering [OF toy_host_ok ivs _ _ toy_container_encrypted _ _ ser])
       (use js perm in \<open>simp_all add: json_roundtrip_def\<close>)
  then show ?thesis using ser by blast
qed

section \<open>The document store: evaluation at concrete inputs\<close>

lemma array_index_dollar [simp]: "array_index (CHR ''$'' # s) = None"
  by (simp add: array_index_def)

lemma array_index_x [simp]: "array_index ''x'' = None" "array_index ''_id'' = None"
  by (simp_all add: array_index_def)

lemma getNestedValue_x [simp]:
  "getNestedValue J (JObj ((''x'', v) # rest)) ''x'' = v"
  by (simp add: getNestedValue_def js_get_def)

text \<open>
  Claim C3 (a predicate map matches iff every top-level key matches, whatever the key
  order) against the code. The document \<open>{x: 1}\<close> matches the key \<open>$or: [{}]\<close> and does not
  match the key \<open>x: 5\<close>, so the conjunction is false. \<open>matchesQuery\<close> returns the result of
  a logical key at once: with \<open>$or\<close> listed first the map matches, with \<open>x\<close> listed first
  it does not.
\<close>

theorem matchesQuery_logical_key_returns:
  "matchesQuery J [(''x'', JNum 1)] (JObj [(''$or'', JArr [JObj []])]) = Inr True
   \<and> matchesQuery J [(''x'', JNum 1)] (JObj [(''x'', JNum 5)]) = Inr False
   \<and> matchesQuery J [(''x'', JNum 1)] (JObj [(''$or'', JArr [JObj []]), (''x'', JNum 5)]) = Inr True
   \<and> matchesQuery J [(''x'', JNum 1)] (JObj [(''x'', JNum 5), (''$or'', JArr [JObj []])]) = Inr False"
  by (simp add: field_cond_def isObject_def)

lemma applyUpdate_inc_only:
  "applyUpdate J [(''x'', JNum 1)] [(''$inc'', JObj [(''x'', JNum 3)])]
   = [(''x'', JNum 1), (''$inc'', JObj [(''x'', JNum 3)])]"
  by (simp add: applyUpdate_def js_in_def object_prototype_names_def object_assign_def
      entries_of_def obj_set_def obj_define_def)

text \<open>With a \<open>$set\<close> key in the payload the increment is applied.\<close>

lemma applyUpdate_set_inc:
  "applyUpdate J [(''x'', JNum 1)] [(''$set'', JObj []), (''$inc'', JObj [(''x'', JNum 3)])]
   = [(''x'', JNum 4)]"
  by (simp add: applyUpdate_def js_in_def object_assign_def modifier_def truthy_def
      entries_of_def obj_set_def obj_define_def inc_field_def js_get_def js_plus_def)

text \<open>
  Claim C2 (the payload \<open>{$inc: {x: 3}}\<close> alone sets \<open>x\<close> from 1 to 4 and adds 1 to the
  version) against the code. \<open>applyUpdate\<close> reads the modifiers only when the payload has
  a \<open>$set\<close> key; this payload has none, so it is merged as plain data: \<open>x\<close> stays 1 and
  the document gets a field named \<open>$inc\<close>. The version does go from 1 to 2.
\<close>

theorem update_inc_without_set:
  "update J db_x1 7 ''c'' (JObj []) [(''$inc'', JObj [(''x'', JNum 3)])] None
   = Inr (\<lparr>ur_success = True, ur_error = None, ur_matchedCount = 1, ur_modifiedCount = 1\<rparr>,
          \<lparr>db_collections =
             [(''c'', \<lparr>col_name = ''c'',
                col_documents =
                  [(''a'', \<lparr>d_id = ''a'',
                     d_data = [(''x'', JNum 1), (''$inc'', JObj [(''x'', JNum 3)])],
                     d_meta = \<lparr>dm_createdAt = 0, dm_updatedAt = 7, dm_version = 2, dm_deleted = False\<rparr>\<rparr>)],
                col_meta = \<lparr>cm_createdAt = 0, cm_modifiedAt = 7, cm_documentCount = 1\<rparr>\<rparr>)]\<rparr>)"
  by (simp add: update_def db_x1_def db_of_def doc_of_def getCollection_def obj_lookup_def
      live_match_def upd_doc_def touch_def applyUpdate_inc_only put_collection_def multi_update_def)

section \<open>The document store: find\<close>

lemma filter_err_Inr:
  "filter_err f xs = Inr ys \<Longrightarrow> ys = filter (\<lambda>x. f x = Inr True) xs"
proof (induction xs arbitrary: ys)
  case Nil
  then show ?case by simp
next
  case (Cons x xs)
  then obtain b zs where b: "f x = Inr b" and zs: "filter_err f xs = Inr zs"
    and ys: "ys = (if b then x # zs else zs)"
    by (auto simp: bind_err_Inr_iff)
  from Cons.IH [OF zs] show ?case using b ys by auto
qed

lemma filter_err_total:
  "filter_err f xs = Inr ys \<Longrightarrow> x \<in> set xs \<Longrightarrow> \<exists>b. f x = Inr b"
  by (induction xs arbitrary: ys) (auto simp: bind_err_Inr_iff)

lemma filter_err_ok:
  "\<forall>x \<in> set xs. \<exists>b. f x = Inr b \<Longrightarrow> filter_err f xs = Inr (filter (\<lambda>x. f x = Inr True) xs)"
  by (induction xs) auto

lemma set_insort_by [simp]: "set (insort_by cmp x xs) = insert x (set xs)"
  by (induction xs) auto

lemma length_insort_by [simp]: "length (insort_by cmp x xs) = Suc (length xs)"
  by (induction xs) auto

lemma set_sort_by [simp]: "set (sort_by cmp xs) = set xs"
  by (induction xs) (simp_all add: sort_by_def)

lemma length_sort_by [simp]: "length (sort_by cmp xs) = length xs"
  by (induction xs) (simp_all add: sort_by_def)

lemma set_slice_to: "set (slice_to xs l) \<subseteq> set xs"
  by (auto simp: slice_to_def dest: in_set_takeD)

lemma length_applyProjection [simp]: "length (applyProjection J rs p) = length rs"
  by (cases p) (simp_all add: applyProjection_def Let_def)

lemma find_shape:
  assumes f: "find_documents J db name query = Inr r" and c: "getCollection db name = Inr c"
  shows "\<exists>page. set page \<subseteq> set (filter (selected J query) (map snd (col_documents c)))
           \<and> fr_data r = (case query_projection query of
                              None \<Rightarrow> map to_result page
                            | Some p \<Rightarrow> applyProjection J (map to_result page) p)
           \<and> fr_totalCount r = length (filter (selected J query) (map snd (col_documents c)))
           \<and> fr_hasMore r = (query_skip query + int (length page) < int (fr_totalCount r))"
proof -
  let ?all = "map snd (col_documents c)"
  define matching where "matching = filter
     (\<lambda>doc. case query_where query of None \<Rightarrow> True
        | Some w \<Rightarrow> if truthy w then matchesQuery J (d_data doc) w = Inr True else True) ?all"
  have m: "(case query_where query of
              None \<Rightarrow> Inr ?all
            | Some w \<Rightarrow> if truthy w
                        then filter_err (\<lambda>doc. matchesQuery J (d_data doc) w) ?all
                        else Inr ?all) = Inr matching"
  proof -
    obtain ms where ms: "(case query_where query of
              None \<Rightarrow> Inr ?all
            | Some w \<Rightarrow> if truthy w
                        then filter_err (\<lambda>doc. matchesQuery J (d_data doc) w) ?all
                        else Inr ?all) = Inr ms"
      using f c by (auto simp: find_documents_def Let_def bind_err_Inr_iff)
    then have "ms = matching"
      unfolding matching_def
      by (auto split: option.splits if_splits dest: filter_err_Inr)
    then show ?thesis using ms by simp
  qed
  define documents where "documents = (if \<not> query_includeDeleted query
      then filter (\<lambda>doc. \<not> dm_deleted (d_meta doc)) matching else matching)"
  have d: "documents = filter (selected J query) ?all"
    unfolding documents_def matching_def selected_def
    by (auto intro: filter_cong)
  define sorted where "sorted = (case query_sort query of
       None \<Rightarrow> documents | Some srt \<Rightarrow> sortDocuments J documents srt)"
  define skipped where "skipped = (if query_skip query > 0 then drop (nat (query_skip query)) sorted else sorted)"
  define page where "page = (case query_limit query of
       None \<Rightarrow> skipped | Some l \<Rightarrow> if l \<noteq> 0 then slice_to skipped l else skipped)"
  have s1: "set sorted = set documents"
    by (simp add: sorted_def sortDocuments_def split: option.splits)
  have s2: "set skipped \<subseteq> set sorted"
    by (auto simp: skipped_def dest: in_set_dropD)
  have s3: "set page \<subseteq> set skipped"
    using set_slice_to [of skipped] by (auto simp: page_def split: option.splits)
  have "find_documents J db name query = Inr \<lparr>fr_success = True,
                fr_data = (case query_projection query of
                              None \<Rightarrow> map to_result page
                            | Some p \<Rightarrow> applyProjection J (map to_result page) p),
                fr_totalCount = length documents,
                fr_hasMore = (query_skip query + int (length page) < int (length documents))\<rparr>"
    unfolding find_documents_def c bind_err_simps Let_def m
    unfolding documents_def [symmetric] 
    unfolding sorted_def [symmetric]
    unfolding skipped_def [symmetric]
    unfolding page_def [symmetric]
    by (rule refl)
  then have r: "r = \<lparr>fr_success = True,
                fr_data = (case query_projection query of
                              None \<Rightarrow> map to_result page
                            | Some p \<Rightarrow> applyProjection J (map to_result page) p),
                fr_totalCount = length documents,
                fr_hasMore = (query_skip query + int (length page) < int (length documents))\<rparr>"
    using f by simp
  show ?thesis
    using s1 s2 s3 by (intro exI [of _ page]) (auto simp: r d)
qed

lemma getCollection_db_of [simp]: "getCollection (db_of docs) ''c'' =
   Inr \<lparr>col_name = ''c'', col_documents = docs,
        col_meta = \<lparr>cm_createdAt = 0, cm_modifiedAt = 0, cm_documentCount = int (length docs)\<rparr>\<rparr>"
  by (simp add: getCollection_def db_of_def obj_lookup_def)

lemma find_example:
  "find_documents J db_abc ''c''
     (Some \<lparr>fq_where = Some (JObj [(''x'', JObj [(''$gte'', JNum 5)])]), fq_options = None\<rparr>)
   = Inr \<lparr>fr_success = True, fr_data = [[(''_id'', JStr ''b''), (''x'', JNum 5)]],
          fr_totalCount = 1, fr_hasMore = False\<rparr>"
  by (simp add: find_documents_def db_abc_def doc_of_def query_where_def query_includeDeleted_def
      query_sort_def query_skip_def query_limit_def query_projection_def truthy_def
      field_cond_def isObject_def entries_of_def op_holds_def js_lt_def js_less_def to_num_def
      to_result_def obj_define_def)

text \<open>
  Claim C8. When \<open>find\<close> returns a result for a collection, the documents it returns
  (\<open>page\<close>, before projection) are among the documents selected by the query, which
  exclude the soft-deleted unless the query includes them; \<open>totalCount\<close> is the number
  of selected documents, whatever skip and limit are; and
  \<open>hasMore = (skip + returnedCount < totalCount)\<close>. Over the documents \<open>a\<close> (x = 1),
  \<open>b\<close> (x = 5) and the soft-deleted \<open>c\<close> (x = 10), the query \<open>{where: {x: {$gte: 5}}}\<close>
  returns \<open>b\<close> alone, with \<open>totalCount = 1\<close> and \<open>hasMore = false\<close>.
\<close>

theorem find_result:
  "(find_documents J db name query = Inr r \<and> getCollection db name = Inr c \<longrightarrow>
      (\<exists>page. set page \<subseteq> set (filter (selected J query) (map snd (col_documents c)))
         \<and> (\<not> query_includeDeleted query \<longrightarrow> (\<forall>doc \<in> set page. \<not> dm_deleted (d_meta doc)))
         \<and> fr_data r = (case query_projection query of
                          None \<Rightarrow> map to_result page
                        | Some p \<Rightarrow> applyProjection J (map to_result page) p)
         \<and> length (fr_data r) = length page
         \<and> fr_totalCount r = length (filter (selected J query) (map snd (col_documents c)))
         \<and> fr_hasMore r = (query_skip query + int (length (fr_data r)) < int (fr_totalCount r))))
   \<and> find_documents J db_abc ''c''
        (Some \<lparr>fq_where = Some (JObj [(''x'', JObj [(''$gte'', JNum 5)])]), fq_options = None\<rparr>)
      = Inr \<lparr>fr_success = True, fr_data = [[(''_id'', JStr ''b''), (''x'', JNum 5)]],
             fr_totalCount = 1, fr_hasMore = False\<rparr>"
proof (intro conjI impI)
  assume a: "find_documents J db name query = Inr r \<and> getCollection db name = Inr c"
  then obtain page where p:
    "set page \<subseteq> set (filter (selected J query) (map snd (col_documents c)))"
    "fr_data r = (case query_projection query of
                    None \<Rightarrow> map to_result page
                  | Some p \<Rightarrow> applyProjection J (map to_result page) p)"
    "fr_totalCount r = length (filter (selected J query) (map snd (col_documents c)))"
    "fr_hasMore r = (query_skip query + int (length page) < int (fr_totalCount r))"
    using find_shape [of J db name query r c] by blast
  have l: "length (fr_data r) = length page"
    by (simp add: p(2) split: option.splits)
  have d: "\<not> query_includeDeleted query \<longrightarrow> (\<forall>doc \<in> set page. \<not> dm_deleted (d_meta doc))"
    using p(1) by (auto simp: selected_def)
  show "\<exists>page. set page \<subseteq> set (filter (selected J query) (map snd (col_documents c)))
         \<and> (\<not> query_includeDeleted query \<longrightarrow> (\<forall>doc \<in> set page. \<not> dm_deleted (d_meta doc)))
         \<and> fr_data r = (case query_projection query of
                          None \<Rightarrow> map to_result page
                        | Some p \<Rightarrow> applyProjection J (map to_result page) p)
         \<and> length (fr_data r) = length page
         \<and> fr_totalCount r = length (filter (selected J query) (map snd (col_documents c)))
         \<and> fr_hasMore r = (query_skip query + int (length (fr_data r)) < int (fr_totalCount r))"
    using p d l by (intro exI [of _ page]) simp
next
  show "find_documents J db_abc ''c''
        (Some \<lparr>fq_where = Some (JObj [(''x'', JObj [(''$gte'', JNum 5)])]), fq_options = None\<rparr>)
      = Inr \<lparr>fr_success = True, fr_data = [[(''_id'', JStr ''b''), (''x'', JNum 5)]],
             fr_totalCount = 1, fr_hasMore = False\<rparr>"
    by (rule find_example)
qed

theorem find_result_witness:
  "length (filter (selected toy_js
      (Some \<lparr>fq_where = Some (JObj [(''x'', JObj [(''$gte'', JNum 5)])]), fq_options = None\<rparr>))
      (map snd [doc_of ''a'' [(''x'', JNum 1)] False, doc_of ''b'' [(''x'', JNum 5)] False,
                doc_of ''c'' [(''x'', JNum 10)] True])) = 1"
proof -
  let ?q = "Some \<lparr>fq_where = Some (JObj [(''x'', JObj [(''$gte'', JNum 5)])]), fq_options = None\<rparr>"
  let ?r = "\<lparr>fr_success = True, fr_data = [[(''_id'', JStr ''b''), (''x'', JNum 5)]],
             fr_totalCount = 1, fr_hasMore = False\<rparr>"
  let ?c = "\<lparr>col_name = ''c'', col_documents = [doc_of ''a'' [(''x'', JNum 1)] False, doc_of ''b'' [(''x'', JNum 5)] False,
                doc_of ''c'' [(''x'', JNum 10)] True],
        col_meta = \<lparr>cm_createdAt = 0, cm_modifiedAt = 0, cm_documentCount = 3\<rparr>\<rparr>"
  have h: "find_documents toy_js db_abc ''c'' ?q = Inr ?r \<and> getCollection db_abc ''c'' = Inr ?c"
    by (simp add: find_example) (simp add: db_abc_def)
  from find_result [of toy_js db_abc "''c''" ?q ?r ?c] h
  have "fr_totalCount ?r = length (filter (selected toy_js ?q) (map snd (col_documents ?c)))"
    by blast
  then show ?thesis by simp
qed

section \<open>The document store: update\<close>

lemma map_fst_upd_doc [simp]: "map fst (upd_doc k f docs) = map fst docs"
  by (induction docs) (auto simp: upd_doc_def)

lemma length_upd_doc [simp]: "length (upd_doc k f docs) = length docs"
  by (simp add: upd_doc_def)




lemma map_of_put:
  "map_of m name = Some c \<Longrightarrow> map_of (map (\<lambda>(n, c0). if n = name then (n, c') else (n, c0)) m) name = Some c'"
  by (induction m) (auto split: if_splits)

lemma getCollection_put:
  "getCollection db name = Inr c \<Longrightarrow> getCollection (put_collection db name c') name = Inr c'"
  by (auto simp: getCollection_def obj_lookup_def put_collection_def map_of_put
           split: option.splits if_splits)

lemma update_loop_single:
  "update_loop J now dat False ((k, d) # rest) docs n = (upd_doc k (touch J now dat) docs, n + 1)"
  by simp




section \<open>The document store: delete, and operations that find no document\<close>

lemma upd_doc_keeps:
  "(ident, d) \<in> set docs \<Longrightarrow> k \<noteq> ident \<Longrightarrow> (ident, d) \<in> set (upd_doc k f docs)"
  by (induction docs) (auto simp: upd_doc_def)

lemma obj_delete_keeps:
  "(ident, d) \<in> set docs \<Longrightarrow> k \<noteq> ident \<Longrightarrow> (ident, d) \<in> set (obj_delete k docs)"
  by (auto simp: obj_delete_def)

lemma delete_loop_keeps:
  assumes "(ident, d) \<in> set docs"
    and "\<forall>(k, t) \<in> set targets. k \<noteq> ident \<and> d_id t \<noteq> ident"
  shows "(ident, d) \<in> set (fst (delete_loop now hard multi targets docs cnt n))"
  using assms
proof (induction targets arbitrary: docs cnt n)
  case Nil
  then show ?case by simp
next
  case (Cons kt targets)
  obtain k t where kt: "kt = (k, t)" by (cases kt)
  let ?docs' = "if hard then obj_delete (d_id t) docs else upd_doc k (mark_deleted now) docs"
  have "(ident, d) \<in> set ?docs'"
    using Cons.prems by (auto simp: kt intro: upd_doc_keeps obj_delete_keeps)
  moreover have "\<forall>(k, t) \<in> set targets. k \<noteq> ident \<and> d_id t \<noteq> ident"
    using Cons.prems(2) by simp
  ultimately have "(ident, d) \<in> set (fst (delete_loop now hard multi targets ?docs'
      (if hard then cnt - 1 else cnt) (n + 1)))"
    by (rule Cons.IH)
  then show ?case
    using \<open>(ident, d) \<in> set ?docs'\<close> by (cases hard; cases multi) (simp_all add: kt Let_def)
qed

lemma wf_docs_unique:
  "wf_docs docs \<Longrightarrow> (k, d) \<in> set docs \<Longrightarrow> (k, d') \<in> set docs \<Longrightarrow> d = d'"
  by (auto simp: wf_docs_def dest: eq_key_imp_eq_value)

lemma live_targets_avoid_deleted:
  assumes wf: "wf_docs docs" and m: "filter_err (live_match J whr) docs = Inr targets"
    and d: "(ident, d) \<in> set docs" "dm_deleted (d_meta d)"
  shows "\<forall>(k, t) \<in> set targets. k \<noteq> ident \<and> d_id t \<noteq> ident"
proof (intro ballI, clarify)
  fix k t assume kt: "(k, t) \<in> set targets"
  have t: "targets = filter (\<lambda>e. live_match J whr e = Inr True) docs"
    by (rule filter_err_Inr [OF m])
  then have in_docs: "(k, t) \<in> set docs" and live: "live_match J whr (k, t) = Inr True"
    using kt by auto
  have nd: "\<not> dm_deleted (d_meta t)"
    using live by (auto simp: live_match_def split: if_splits)
  have id: "d_id t = k" using wf in_docs by (auto simp: wf_docs_def)
  have "k \<noteq> ident"
  proof
    assume "k = ident"
    then have "t = d" using wf_docs_unique [OF wf] in_docs d(1) by blast
    then show False using nd d(2) by simp
  qed
  then show "k \<noteq> ident \<and> d_id t \<noteq> ident" using id by simp
qed

lemma delete_keeps_soft_deleted:
  assumes c: "getCollection db name = Inr c" and wf: "wf_docs (col_documents c)"
    and d: "(ident, d) \<in> set (col_documents c)" "dm_deleted (d_meta d)"
    and r: "delete J db now name whr options = Inr (r, db')"
  shows "\<exists>c'. getCollection db' name = Inr c' \<and> (ident, d) \<in> set (col_documents c')"
proof -
  obtain targets where m: "filter_err (live_match J whr) (col_documents c) = Inr targets"
    using r c by (auto simp: delete_def bind_err_Inr_iff)
  let ?loop = "delete_loop now (hard_delete options) (multi_delete options) targets
                 (col_documents c) (cm_documentCount (col_meta c)) 0"
  obtain docs' cnt' n' where l: "?loop = (docs', cnt', n')" by (cases ?loop)
  have keep: "(ident, d) \<in> set docs'"
    using delete_loop_keeps [OF d(1) live_targets_avoid_deleted [OF wf m d],
            of now "hard_delete options" "multi_delete options" "cm_documentCount (col_meta c)" 0]
    by (simp add: l)
  have db': "db' = (if n' > 0 then put_collection db name
                (c\<lparr>col_documents := docs',
                   col_meta := (col_meta c)\<lparr>cm_documentCount := cnt', cm_modifiedAt := now\<rparr>\<rparr>) else db)"
    using r by (simp add: delete_def c m l)
  show ?thesis
  proof (cases "n' > 0")
    case True
    then show ?thesis using keep getCollection_put [OF c] by (simp add: db')
  next
    case False
    then show ?thesis using c d(1) by (simp add: db')
  qed
qed

lemma obj_delete_absent: "k \<notin> fst ` set (obj_delete k m)"
  by (auto simp: obj_delete_def)

text \<open>
  Claim C5, as amended. A hard delete of a document that is not soft-deleted
  (\<open>deleteById\<close> with \<open>hard = true\<close> on its id, or \<open>delete\<close> with \<open>hard: true\<close> whose
  predicate it is the first to match) removes the entry from the documents map and
  counts \<open>documentCount\<close> down by one. A soft-deleted document is out of reach of both:
  \<open>deleteById\<close> on its id reports "Document not found" and changes nothing, and
  whatever \<open>delete\<close> does, the soft-deleted entry is still in the map afterwards.
\<close>

theorem hard_delete_live_only:
  "(getCollection db name = Inr c \<and> obj_lookup (col_documents c) ident = Own d
      \<and> \<not> dm_deleted (d_meta d) \<longrightarrow>
      deleteById db now name ident True
      = Inr (\<lparr>dr_success = True, dr_error = None, dr_deletedCount = 1\<rparr>,
             put_collection db name
               (c\<lparr>col_documents := obj_delete ident (col_documents c),
                  col_meta := (col_meta c)\<lparr>cm_documentCount := cm_documentCount (col_meta c) - 1,
                                         cm_modifiedAt := now\<rparr>\<rparr>))
      \<and> ident \<notin> fst ` set (obj_delete ident (col_documents c)))
   \<and> (getCollection db name = Inr c
        \<and> filter_err (live_match J whr) (col_documents c) = Inr ((k, t) # rest)
        \<and> hard_delete options \<and> \<not> multi_delete options \<longrightarrow>
      delete J db now name whr options
      = Inr (\<lparr>dr_success = True, dr_error = None, dr_deletedCount = 1\<rparr>,
             put_collection db name
               (c\<lparr>col_documents := obj_delete (d_id t) (col_documents c),
                  col_meta := (col_meta c)\<lparr>cm_documentCount := cm_documentCount (col_meta c) - 1,
                                         cm_modifiedAt := now\<rparr>\<rparr>)))
   \<and> (getCollection db name = Inr c \<and> obj_lookup (col_documents c) ident = Own d
        \<and> dm_deleted (d_meta d) \<longrightarrow>
      deleteById db now name ident hard = Inr (not_found_delete, db))
   \<and> (getCollection db name = Inr c \<and> wf_docs (col_documents c)
        \<and> (ident, d) \<in> set (col_documents c) \<and> dm_deleted (d_meta d)
        \<and> delete J db now name whr options = Inr (r, db') \<longrightarrow>
      (\<exists>c'. getCollection db' name = Inr c' \<and> (ident, d) \<in> set (col_documents c')))"
proof (intro conjI impI)
  assume "getCollection db name = Inr c \<and> obj_lookup (col_documents c) ident = Own d
      \<and> \<not> dm_deleted (d_meta d)"
  then show "deleteById db now name ident True
      = Inr (\<lparr>dr_success = True, dr_error = None, dr_deletedCount = 1\<rparr>,
             put_collection db name
               (c\<lparr>col_documents := obj_delete ident (col_documents c),
                  col_meta := (col_meta c)\<lparr>cm_documentCount := cm_documentCount (col_meta c) - 1,
                                         cm_modifiedAt := now\<rparr>\<rparr>))"
    by (simp add: deleteById_def)
next
  show "ident \<notin> fst ` set (obj_delete ident (col_documents c))"
    by (rule obj_delete_absent)
next
  assume "getCollection db name = Inr c
        \<and> filter_err (live_match J whr) (col_documents c) = Inr ((k, t) # rest)
        \<and> hard_delete options \<and> \<not> multi_delete options"
  then show "delete J db now name whr options
      = Inr (\<lparr>dr_success = True, dr_error = None, dr_deletedCount = 1\<rparr>,
             put_collection db name
               (c\<lparr>col_documents := obj_delete (d_id t) (col_documents c),
                  col_meta := (col_meta c)\<lparr>cm_documentCount := cm_documentCount (col_meta c) - 1,
                                         cm_modifiedAt := now\<rparr>\<rparr>))"
    by (simp add: delete_def)
next
  assume "getCollection db name = Inr c \<and> obj_lookup (col_documents c) ident = Own d
        \<and> dm_deleted (d_meta d)"
  then show "deleteById db now name ident hard = Inr (not_found_delete, db)"
    by (simp add: deleteById_def)
next
  assume "getCollection db name = Inr c \<and> wf_docs (col_documents c)
        \<and> (ident, d) \<in> set (col_documents c) \<and> dm_deleted (d_meta d)
        \<and> delete J db now name whr options = Inr (r, db')"
  then show "\<exists>c'. getCollection db' name = Inr c' \<and> (ident, d) \<in> set (col_documents c')"
    using delete_keeps_soft_deleted by blast
qed

theorem hard_delete_live_only_witness:
  "deleteById db_x1 7 ''c'' ''a'' True
   = Inr (\<lparr>dr_success = True, dr_error = None, dr_deletedCount = 1\<rparr>,
          \<lparr>db_collections =
             [(''c'', \<lparr>col_name = ''c'', col_documents = [],
                col_meta = \<lparr>cm_createdAt = 0, cm_modifiedAt = 7, cm_documentCount = 0\<rparr>\<rparr>)]\<rparr>)"
proof -
  let ?d = "\<lparr>d_id = ''a'', d_data = [(''x'', JNum 1)],
             d_meta = \<lparr>dm_createdAt = 0, dm_updatedAt = 0, dm_version = 1, dm_deleted = False\<rparr>\<rparr>"
  let ?c = "\<lparr>col_name = ''c'', col_documents = [(''a'', ?d)],
        col_meta = \<lparr>cm_createdAt = 0, cm_modifiedAt = 0, cm_documentCount = 1\<rparr>\<rparr>"
  have h: "getCollection db_x1 ''c'' = Inr ?c \<and> obj_lookup (col_documents ?c) ''a'' = Own ?d
           \<and> \<not> dm_deleted (d_meta ?d)"
    by (simp add: db_x1_def doc_of_def obj_lookup_def)
  from hard_delete_live_only [of db_x1 "''c''" ?c "''a''" ?d 7] h
  have "deleteById db_x1 7 ''c'' ''a'' True
      = Inr (\<lparr>dr_success = True, dr_error = None, dr_deletedCount = 1\<rparr>,
             put_collection db_x1 ''c''
               (?c\<lparr>col_documents := obj_delete ''a'' (col_documents ?c),
                  col_meta := (col_meta ?c)\<lparr>cm_documentCount := cm_documentCount (col_meta ?c) - 1,
                                         cm_modifiedAt := 7\<rparr>\<rparr>))"
    by blast
  then show ?thesis
    by (simp add: db_x1_def db_of_def doc_of_def put_collection_def obj_delete_def)
qed

text \<open>
  The claim as stated fails: on a collection whose only document is soft-deleted, the
  hard \<open>deleteById\<close> and the hard \<open>delete\<close> with a predicate that its data matches
  both leave the database as it is.
\<close>

theorem hard_delete_counterexample:
  "deleteById db_deleted 7 ''c'' ''a'' True = Inr (not_found_delete, db_deleted)
   \<and> delete toy_js db_deleted 7 ''c'' (JObj []) (Some \<lparr>do_hard = True, do_multi = True\<rparr>)
     = Inr (\<lparr>dr_success = True, dr_error = None, dr_deletedCount = 0\<rparr>, db_deleted)"
  by (simp add: deleteById_def delete_def db_deleted_def doc_of_def obj_lookup_def live_match_def)




section \<open>The document store: documentCount\<close>










lemma d_id_touch [simp]: "d_id (touch J now dat d) = d_id d"
  by (simp add: touch_def)

lemma d_id_mark_deleted [simp]: "d_id (mark_deleted now d) = d_id d"
  by (simp add: mark_deleted_def)










lemma valid_short_id_not_proto: "valid_short_id s \<Longrightarrow> s \<noteq> ''__proto__''"
  by (auto simp: valid_short_id_def)








text \<open>
  When \<open>generateShortId\<close> returns the same id twice in one \<open>insertMany\<close>, the two
  documents leave one entry, while \<open>documentCount\<close> grows by two.
\<close>

lemma insertMany_same_id:
  "insertMany \<lparr>db_collections = [(''c'', \<lparr>col_name = ''c'', col_documents = [],
        col_meta = \<lparr>cm_createdAt = 1, cm_modifiedAt = 1, cm_documentCount = 0\<rparr>\<rparr>)]\<rparr>
      2 (\<lambda>i. ''AAAAAAAAAAAAAAAAAAAAA'') ''c'' [[], []]
   = Inr (\<lparr>ir_success = True, ir_data = [[], []],
           ir_insertedIds = [''AAAAAAAAAAAAAAAAAAAAA'', ''AAAAAAAAAAAAAAAAAAAAA''],
           ir_insertedCount = 2\<rparr>,
          \<lparr>db_collections = [(''c'', \<lparr>col_name = ''c'',
             col_documents = [(''AAAAAAAAAAAAAAAAAAAAA'', new_document 2 ''AAAAAAAAAAAAAAAAAAAAA'' [])],
             col_meta = \<lparr>cm_createdAt = 1, cm_modifiedAt = 2, cm_documentCount = 2\<rparr>\<rparr>)]\<rparr>)"
proof -
  have u: "[0..<2] = [0, Suc 0]"
    by (simp add: upt_rec numeral_2_eq_2)
  have a: "array_index ''AAAAAAAAAAAAAAAAAAAAA'' = None"
    by (simp add: array_index_def)
  show ?thesis
    by (simp add: insertMany_def getCollection_def obj_lookup_def put_collection_def Let_def u a
        obj_set_def obj_define_def object_prototype_names_def)
qed


lemma array_index_ab [simp]: "array_index ''a'' = None" "array_index ''b'' = None" "array_index ''c'' = None"
  by (simp_all add: array_index_def)


end
